theory Spec2Isabelle
  imports Main "HOL-Library.Sublist"
begin

section \<open>Python strings and POSIX paths\<close>

text \<open>
  A Python \<open>str\<close> is modelled as a \<open>string\<close> of ASCII characters; \<open>str.lower\<close> and
  \<open>str.upper\<close> act on the letters A to Z and a to z only.
\<close>

definition lower_char :: "char \<Rightarrow> char" where
  "lower_char c =
     (case map_of (zip ''ABCDEFGHIJKLMNOPQRSTUVWXYZ'' ''abcdefghijklmnopqrstuvwxyz'') c of
        Some d \<Rightarrow> d
      | None \<Rightarrow> c)"

definition upper_char :: "char \<Rightarrow> char" where
  "upper_char c =
     (case map_of (zip ''abcdefghijklmnopqrstuvwxyz'' ''ABCDEFGHIJKLMNOPQRSTUVWXYZ'') c of
        Some d \<Rightarrow> d
      | None \<Rightarrow> c)"

text \<open>\<open>s.lower()\<close>\<close>

definition str_lower :: "string \<Rightarrow> string" where
  "str_lower s = map lower_char s"

text \<open>\<open>s.capitalize()\<close>: first character upper case, the rest lower case.\<close>

fun capitalize :: "string \<Rightarrow> string" where
  "capitalize [] = []"
| "capitalize (c # cs) = upper_char c # str_lower cs"

text \<open>\<open>s.endswith(ext)\<close>\<close>

definition endswith :: "string \<Rightarrow> string \<Rightarrow> bool" where
  "endswith ext s \<longleftrightarrow> length ext \<le> length s \<and> drop (length s - length ext) s = ext"

text \<open>\<open>str(n)\<close> for a non-negative integer, as the f-string of the collision loop renders
  the counter.\<close>

fun str_nat :: "nat \<Rightarrow> string" where
  "str_nat n =
     (if n < 10 then [''0123456789'' ! n]
      else str_nat (n div 10) @ [''0123456789'' ! (n mod 10)])"

declare str_nat.simps [simp del]

text \<open>\<open>os.path.basename(p)\<close>: what follows the last slash.\<close>

definition basename :: "string \<Rightarrow> string" where
  "basename p = rev (takeWhile (\<lambda>c. c \<noteq> CHR ''/'') (rev p))"

text \<open>
  \<open>os.path.splitext(p)\<close>: the extension starts at the last dot of the last path component,
  unless only dots precede that dot in the component.
\<close>

definition splitext :: "string \<Rightarrow> string \<times> string" where
  "splitext p =
     (let name = basename p;
          head = take (length p - length name) p;
          root = take (length name - length (takeWhile (\<lambda>c. c \<noteq> CHR ''.'') (rev name)) - 1) name
      in if CHR ''.'' \<in> set name \<and> (\<exists>c \<in> set root. c \<noteq> CHR ''.'')
         then (head @ root, drop (length root) name)
         else (p, []))"

text \<open>\<open>os.path.join(a, b)\<close>; \<open>os.path.join(a, b, c)\<close> is \<open>path_join (path_join a b) c\<close>.\<close>

definition path_join :: "string \<Rightarrow> string \<Rightarrow> string" where
  "path_join a b =
     (if b \<noteq> [] \<and> hd b = CHR ''/'' then b
      else if a = [] \<or> last a = CHR ''/'' then a @ b
      else a @ ''/'' @ b)"

section \<open>Errors, the environment and the world\<close>

datatype pyerror =
    ValueError | TypeError | JSONDecodeError | UnicodeDecodeError
  | FileNotFoundError | FileExistsError | IsADirectoryError | PermissionError | ShutilError
  | HTTPError | ConnectionError | Timeout | RequestException

type_synonym 'a result = "pyerror + 'a"

datatype json =
    JNull | JBool bool | JInt int | JStr string | JArr "json list" | JObj "(string \<times> json) list"

text \<open>
  The elements of the history set. Python identifies \<open>True\<close> with 1 and \<open>False\<close> with 0 in
  a set, so booleans are integer keys. JSON numbers with a fraction are left out of \<open>json\<close>.
\<close>

datatype pykey = KNone | KInt int | KStr string

datatype response = HttpOk string | HttpFail pyerror | HttpBroken string pyerror

text \<open>
  The libraries the program calls are parameters of the model:
  \<^item> \<open>soup_hrefs html\<close>: the \<open>href\<close> values of
    \<open>BeautifulSoup(html, 'html.parser').find_all('a', href=True)\<close>, in document order
    (the parser is taken to accept every markup);
  \<^item> \<open>urljoin base href\<close>: \<open>urllib.parse.urljoin\<close>, which raises \<open>ValueError\<close> on some
    inputs (an unbalanced bracket in the authority);
  \<^item> \<open>url_path url\<close>: \<open>urlparse(url).path\<close>, which raises on the same kind of input;
  \<^item> \<open>json_loads text\<close>: \<open>json.load\<close> on a file of that content;
  \<^item> \<open>dump_set s\<close>: the text \<open>json.dump(list(s), f, indent=4)\<close> writes;
  \<^item> \<open>http_get n url\<close>: what the server answers to the GET request number \<open>n\<close> of the run:
    a complete body, a failure before any body, or a body cut short by a failure.
\<close>

record env =
  soup_hrefs :: "string \<Rightarrow> string list"
  urljoin :: "string \<Rightarrow> string \<Rightarrow> string result"
  url_path :: "string \<Rightarrow> string result"
  json_loads :: "string \<Rightarrow> json result"
  dump_set :: "pykey set \<Rightarrow> string"
  http_get :: "nat \<Rightarrow> string \<Rightarrow> response"

text \<open>The lines the program prints to report a warning or a failure; progress lines are
  not recorded.\<close>

datatype msg =
    HistoryCorrupt string | HistoryLoadFailed string pyerror | HistorySaveFailed string pyerror
  | PageFailed string pyerror | NoFilename string | DownloadFailed string pyerror
  | SaveFailed string pyerror | OrganizeMissing string | UnknownRule string
  | MoveFailed string pyerror | NotOrganized string | NotDownloaded string | PageSkipped string
  | NoConfig | NoTargetUrls | NoAllowedExtensions

text \<open>
  The world the program acts on. The file system maps a path, as the string the program
  uses, to a regular file with its content or to a directory; the entries below a directory
  are entries of their own, and a path is not tied to the folders above it: creating a
  folder records that folder alone, and a file can be created where the folder above it is
  not recorded. \<open>denied\<close> holds the paths the operating system refuses to create
  or open. \<open>today\<close> is \<open>datetime.now().strftime("%Y-%m-%d")\<close>, \<open>requests\<close> the GET requests
  sent so far, \<open>slept\<close> the seconds spent in \<open>time.sleep\<close>.
\<close>

datatype node = File string | Dir

record world =
  fs :: "string \<rightharpoonup> node"
  denied :: "string set"
  today :: string
  requests :: "string list"
  slept :: nat
  stdout :: "msg list"

definition say :: "msg \<Rightarrow> world \<Rightarrow> world" where
  "say m w = w\<lparr>stdout := stdout w @ [m]\<rparr>"

definition sleep :: "nat \<Rightarrow> world \<Rightarrow> world" where
  "sleep seconds w = w\<lparr>slept := slept w + seconds\<rparr>"

text \<open>\<open>os.path.exists(p)\<close>\<close>

definition path_exists :: "world \<Rightarrow> string \<Rightarrow> bool" where
  "path_exists w p \<longleftrightarrow> fs w p \<noteq> None"

text \<open>\<open>os.makedirs(d, exist_ok=True)\<close>: an existing directory is accepted, a regular file
  in its place is not.\<close>

definition makedirs :: "string \<Rightarrow> world \<Rightarrow> world result" where
  "makedirs d w =
     (if d = [] then Inl FileNotFoundError
      else case fs w d of
        Some Dir \<Rightarrow> Inr w
      | Some (File c) \<Rightarrow> Inl FileExistsError
      | None \<Rightarrow> if d \<in> denied w then Inl PermissionError else Inr (w\<lparr>fs := (fs w)(d \<mapsto> Dir)\<rparr>))"

text \<open>\<open>open(p, 'r')\<close> followed by reading the whole file.\<close>

definition open_read :: "string \<Rightarrow> world \<Rightarrow> string result" where
  "open_read p w =
     (case fs w p of
        None \<Rightarrow> Inl FileNotFoundError
      | Some Dir \<Rightarrow> Inl IsADirectoryError
      | Some (File c) \<Rightarrow> if p \<in> denied w then Inl PermissionError else Inr c)"

text \<open>\<open>open(p, 'w')\<close> and \<open>open(p, 'wb')\<close>: the file is created, or emptied when it exists.\<close>

definition open_write :: "string \<Rightarrow> world \<Rightarrow> world result" where
  "open_write p w =
     (if p = [] then Inl FileNotFoundError
      else if fs w p = Some Dir then Inl IsADirectoryError
      else if p \<in> denied w then Inl PermissionError
      else Inr (w\<lparr>fs := (fs w)(p \<mapsto> File [])\<rparr>))"

definition write_file :: "string \<Rightarrow> string \<Rightarrow> world \<Rightarrow> world" where
  "write_file p content w = w\<lparr>fs := (fs w)(p \<mapsto> File content)\<rparr>"

text \<open>
  \<open>shutil.move(src, dst)\<close>: into \<open>dst\<close> when it is a directory (refused when the name is
  taken there), onto \<open>dst\<close> otherwise.
\<close>

definition shutil_move :: "string \<Rightarrow> string \<Rightarrow> world \<Rightarrow> world result" where
  "shutil_move src dst w =
     (let real_dst = (if fs w dst = Some Dir then path_join dst (basename src) else dst)
      in if fs w dst = Some Dir \<and> path_exists w real_dst then Inl ShutilError
         else case fs w src of
           None \<Rightarrow> Inl FileNotFoundError
         | Some n \<Rightarrow>
             if real_dst \<in> denied w then Inl PermissionError
             else Inr (w\<lparr>fs := ((fs w)(src := None))(real_dst \<mapsto> n)\<rparr>))"

section \<open>Link extraction\<close>

text \<open>The loop of \<open>find_download_links\<close> (lines 113 to 120) over the hrefs of the page.\<close>

fun collect_links :: "env \<Rightarrow> string \<Rightarrow> string list \<Rightarrow> string list \<Rightarrow> string list
    \<Rightarrow> string list result" where
  "collect_links e base_url allowed_extensions found_links [] = Inr found_links"
| "collect_links e base_url allowed_extensions found_links (href # hrefs) =
     (case urljoin e base_url href of
        Inl err \<Rightarrow> Inl err
      | Inr absolute_url \<Rightarrow>
          collect_links e base_url allowed_extensions
            (if list_ex (\<lambda>ext. endswith ext (str_lower absolute_url)) allowed_extensions
                \<and> absolute_url \<notin> set found_links
             then found_links @ [absolute_url] else found_links)
            hrefs)"

definition find_download_links :: "env \<Rightarrow> string \<Rightarrow> string \<Rightarrow> string list \<Rightarrow> string list result" where
  "find_download_links e html_content base_url allowed_extensions =
     collect_links e base_url allowed_extensions [] (soup_hrefs e html_content)"

section \<open>The download history\<close>

text \<open>\<open>hash(x)\<close> of a parsed JSON value: lists and dicts are unhashable.\<close>

fun hash_key :: "json \<Rightarrow> pykey result" where
  "hash_key JNull = Inr KNone"
| "hash_key (JBool b) = Inr (KInt (if b then 1 else 0))"
| "hash_key (JInt n) = Inr (KInt n)"
| "hash_key (JStr s) = Inr (KStr s)"
| "hash_key (JArr xs) = Inl TypeError"
| "hash_key (JObj kvs) = Inl TypeError"

fun hash_keys :: "json list \<Rightarrow> pykey set result" where
  "hash_keys [] = Inr {}"
| "hash_keys (x # xs) =
     (case hash_key x of
        Inl err \<Rightarrow> Inl err
      | Inr k \<Rightarrow> (case hash_keys xs of Inl err \<Rightarrow> Inl err | Inr ks \<Rightarrow> Inr (insert k ks)))"

text \<open>
  \<open>set(x)\<close> of a parsed JSON value: the characters of a string, the keys of an object, the
  elements of an array; \<open>TypeError\<close> when the value is not iterable or an element is not
  hashable.
\<close>

fun py_set :: "json \<Rightarrow> pykey set result" where
  "py_set JNull = Inl TypeError"
| "py_set (JBool b) = Inl TypeError"
| "py_set (JInt n) = Inl TypeError"
| "py_set (JStr s) = Inr ((\<lambda>c. KStr [c]) ` set s)"
| "py_set (JArr xs) = hash_keys xs"
| "py_set (JObj kvs) = Inr ((\<lambda>kv. KStr (fst kv)) ` set kvs)"

text \<open>The body of the \<open>try\<close> of \<open>load_download_history\<close> (lines 51 to 54).\<close>

definition read_history :: "env \<Rightarrow> string \<Rightarrow> world \<Rightarrow> pykey set result" where
  "read_history e history_file_path w =
     (case open_read history_file_path w of
        Inl err \<Rightarrow> Inl err
      | Inr text \<Rightarrow>
          (case json_loads e text of
             Inl err \<Rightarrow> Inl err
           | Inr history_list \<Rightarrow> py_set history_list))"

definition load_download_history :: "env \<Rightarrow> string \<Rightarrow> world \<Rightarrow> pykey set result \<times> world" where
  "load_download_history e history_file_path w =
     (if path_exists w history_file_path then
        (case read_history e history_file_path w of
           Inr history \<Rightarrow> (Inr history, w)
         | Inl JSONDecodeError \<Rightarrow> (Inr {}, say (HistoryCorrupt history_file_path) w)
         | Inl err \<Rightarrow> (Inr {}, say (HistoryLoadFailed history_file_path err) w))
      else (Inr {}, w))"

definition save_download_history :: "env \<Rightarrow> string \<Rightarrow> pykey set \<Rightarrow> world \<Rightarrow> world" where
  "save_download_history e history_file_path downloaded_urls w =
     (case open_write history_file_path w of
        Inl err \<Rightarrow> say (HistorySaveFailed history_file_path err) w
      | Inr w1 \<Rightarrow> write_file history_file_path (dump_set e downloaded_urls) w1)"

section \<open>Fetching\<close>

definition get_page_content :: "env \<Rightarrow> string \<Rightarrow> world \<Rightarrow> string option \<times> world" where
  "get_page_content e url w =
     (let w1 = w\<lparr>requests := requests w @ [url]\<rparr>
      in case http_get e (length (requests w)) url of
           HttpOk body \<Rightarrow> (Some body, w1)
         | HttpFail err \<Rightarrow> (None, say (PageFailed url err) w1)
         | HttpBroken part err \<Rightarrow> (None, say (PageFailed url err) w1))"

definition download_file :: "env \<Rightarrow> string \<Rightarrow> string \<Rightarrow> world \<Rightarrow> string option result \<times> world" where
  "download_file e file_url destination_folder w =
     (case url_path e file_url of
        Inl err \<Rightarrow> (Inl err, w)
      | Inr p \<Rightarrow>
          (let file_name = basename p in
           if file_name = [] then (Inr None, say (NoFilename file_url) w)
           else
             (let file_path = path_join destination_folder file_name in
              case makedirs destination_folder w of
                Inl err \<Rightarrow> (Inl err, w)
              | Inr w1 \<Rightarrow>
                  if path_exists w1 file_path then (Inr (Some file_path), w1)
                  else
                    (let w2 = w1\<lparr>requests := requests w1 @ [file_url]\<rparr>
                     in case http_get e (length (requests w1)) file_url of
                          HttpFail err \<Rightarrow> (Inr None, say (DownloadFailed file_url err) w2)
                        | HttpOk body \<Rightarrow>
                            (case open_write file_path w2 of
                               Inl err \<Rightarrow> (Inr None, say (SaveFailed file_path err) w2)
                             | Inr w3 \<Rightarrow> (Inr (Some file_path), write_file file_path body w3))
                        | HttpBroken part err \<Rightarrow>
                            (case open_write file_path w2 of
                               Inl err' \<Rightarrow> (Inr None, say (SaveFailed file_path err') w2)
                             | Inr w3 \<Rightarrow>
                                 (Inr None,
                                  say (DownloadFailed file_url err) (write_file file_path part w3)))))))"

section \<open>Organizing\<close>

text \<open>The rule chain of \<open>organize_file\<close> (lines 193 to 213): the two subfolders, or nothing
  for an unknown rule.\<close>

definition rule_subfolders :: "string \<Rightarrow> string \<Rightarrow> string \<Rightarrow> (string \<times> string) option" where
  "rule_subfolders rule_type file_extension today_date =
     (if rule_type = ''date'' then Some (today_date, [])
      else if rule_type = ''type'' then
        Some (if file_extension \<noteq> [] then capitalize file_extension else ''Otros'', [])
      else if rule_type = ''type_then_date'' then
        Some (if file_extension \<noteq> [] then capitalize file_extension else ''Otros'', today_date)
      else None)"

text \<open>The name tried for a counter value (lines 226 and 227).\<close>

definition numbered_path :: "string \<Rightarrow> string \<Rightarrow> string \<Rightarrow> nat \<Rightarrow> string" where
  "numbered_path final_destination_dir original_file_name_without_ext original_ext counter =
     path_join final_destination_dir
       (original_file_name_without_ext @ ''('' @ str_nat counter @ '')'' @ original_ext)"

text \<open>The \<open>while\<close> loop of lines 225 to 228; \<open>None\<close> stands for a loop that never ends.\<close>

partial_function (option) collision_loop ::
    "world \<Rightarrow> string \<Rightarrow> string \<Rightarrow> string \<Rightarrow> string \<Rightarrow> nat \<Rightarrow> string option" where
  "collision_loop w final_destination_dir stem ext final_file_path counter =
     (if path_exists w final_file_path
      then collision_loop w final_destination_dir stem ext
             (numbered_path final_destination_dir stem ext counter) (counter + 1)
      else Some final_file_path)"

declare collision_loop.simps [code]

definition organize_file :: "string \<Rightarrow> string \<Rightarrow> string \<Rightarrow> world
    \<Rightarrow> (string option result \<times> world) option" where
  "organize_file file_path base_download_folder rule_type w =
     (if file_path = [] \<or> \<not> path_exists w file_path
      then Some (Inr None, say (OrganizeMissing file_path) w)
      else
        (let file_name = basename file_path;
             file_extension =
               filter (\<lambda>c. c \<noteq> CHR ''.'') (str_lower (snd (splitext file_name)))
         in case rule_subfolders rule_type file_extension (today w) of
              None \<Rightarrow> Some (Inr None, say (UnknownRule rule_type) w)
            | Some (subfolder_1, subfolder_2) \<Rightarrow>
                (let final_destination_dir =
                       (if subfolder_2 \<noteq> []
                        then path_join (path_join base_download_folder subfolder_1) subfolder_2
                        else path_join base_download_folder subfolder_1)
                 in case makedirs final_destination_dir w of
                      Inl err \<Rightarrow> Some (Inl err, w)
                    | Inr w1 \<Rightarrow>
                        (case collision_loop w1 final_destination_dir
                                (fst (splitext file_name)) (snd (splitext file_name))
                                (path_join final_destination_dir file_name) 1 of
                           None \<Rightarrow> None
                         | Some final_file_path \<Rightarrow>
                             (case shutil_move file_path final_file_path w1 of
                                Inl err \<Rightarrow> Some (Inr None, say (MoveFailed file_path err) w1)
                              | Inr w2 \<Rightarrow> Some (Inr (Some final_file_path), w2))))))"

section \<open>The run\<close>

text \<open>
  The configuration as \<open>main\<close> reads it from the loaded file (lines 271 to 276), defaults
  filled in. The delay is a whole number of seconds that is not negative, which
  \<open>time.sleep\<close> accepts.
\<close>

record config =
  target_urls :: "string list"
  download_base_folder :: string
  organization_rule :: string
  allowed_extensions :: "string list"
  request_delay_seconds :: nat
  download_history_file :: string

text \<open>One turn of the loop over the links of a page (lines 312 to 327).\<close>

definition process_link :: "env \<Rightarrow> config \<Rightarrow> bool \<Rightarrow> string \<Rightarrow> pykey set \<Rightarrow> world
    \<Rightarrow> (pykey set result \<times> world) option" where
  "process_link e cfg force_download link downloaded_urls_history w =
     (if KStr link \<in> downloaded_urls_history \<and> \<not> force_download
      then Some (Inr downloaded_urls_history, w)
      else
        (case download_file e link (download_base_folder cfg) w of
           (Inl err, w1) \<Rightarrow> Some (Inl err, w1)
         | (Inr None, w1) \<Rightarrow>
             Some (Inr downloaded_urls_history,
                   sleep (request_delay_seconds cfg) (say (NotDownloaded link) w1))
         | (Inr (Some downloaded_file_path), w1) \<Rightarrow>
             (case organize_file downloaded_file_path (download_base_folder cfg)
                     (organization_rule cfg) w1 of
                None \<Rightarrow> None
              | Some (Inl err, w2) \<Rightarrow> Some (Inl err, w2)
              | Some (Inr None, w2) \<Rightarrow>
                  Some (Inr downloaded_urls_history,
                        sleep (request_delay_seconds cfg) (say (NotOrganized downloaded_file_path) w2))
              | Some (Inr (Some organized_path), w2) \<Rightarrow>
                  Some (Inr (insert (KStr link) downloaded_urls_history),
                        sleep (request_delay_seconds cfg) w2))))"

text \<open>The loop over the links of a page (line 311).\<close>

fun process_links :: "env \<Rightarrow> config \<Rightarrow> bool \<Rightarrow> string list \<Rightarrow> pykey set \<Rightarrow> world
    \<Rightarrow> (pykey set result \<times> world) option" where
  "process_links e cfg force_download [] history w = Some (Inr history, w)"
| "process_links e cfg force_download (link # links) history w =
     (case process_link e cfg force_download link history w of
        None \<Rightarrow> None
      | Some (Inl err, w1) \<Rightarrow> Some (Inl err, w1)
      | Some (Inr history1, w1) \<Rightarrow> process_links e cfg force_download links history1 w1)"

text \<open>One turn of the loop over the target pages (lines 305 to 334).\<close>

definition process_url :: "env \<Rightarrow> config \<Rightarrow> bool \<Rightarrow> string \<Rightarrow> pykey set \<Rightarrow> world
    \<Rightarrow> (pykey set result \<times> world) option" where
  "process_url e cfg force_download url history w =
     (case get_page_content e url w of
        (html_content, w1) \<Rightarrow>
          if html_content \<noteq> None \<and> html_content \<noteq> Some [] then
            (case find_download_links e (the html_content) url (allowed_extensions cfg) of
               Inl err \<Rightarrow> Some (Inl err, w1)
             | Inr download_links \<Rightarrow>
                 if download_links \<noteq> [] then
                   (case process_links e cfg force_download download_links history w1 of
                      None \<Rightarrow> None
                    | Some (Inl err, w2) \<Rightarrow> Some (Inl err, w2)
                    | Some (Inr history1, w2) \<Rightarrow>
                        Some (Inr history1, sleep (request_delay_seconds cfg) w2))
                 else Some (Inr history, sleep (request_delay_seconds cfg) w1))
          else Some (Inr history, sleep (request_delay_seconds cfg) (say (PageSkipped url) w1)))"

text \<open>The loop over the target pages (line 304).\<close>

fun process_urls :: "env \<Rightarrow> config \<Rightarrow> bool \<Rightarrow> string list \<Rightarrow> pykey set \<Rightarrow> world
    \<Rightarrow> (pykey set result \<times> world) option" where
  "process_urls e cfg force_download [] history w = Some (Inr history, w)"
| "process_urls e cfg force_download (url # urls) history w =
     (case process_url e cfg force_download url history w of
        None \<Rightarrow> None
      | Some (Inl err, w1) \<Rightarrow> Some (Inl err, w1)
      | Some (Inr history1, w1) \<Rightarrow> process_urls e cfg force_download urls history1 w1)"

text \<open>
  The start of \<open>main\<close> once the configuration is read (lines 278 to 301): the two checks,
  the base folder, the history. \<open>Inr None\<close> is the early \<open>return\<close>.
\<close>

definition start_run :: "env \<Rightarrow> config \<Rightarrow> world \<Rightarrow> pykey set option result \<times> world" where
  "start_run e cfg w =
     (if target_urls cfg = [] then (Inr None, say NoTargetUrls w)
      else if allowed_extensions cfg = [] then (Inr None, say NoAllowedExtensions w)
      else
        (case makedirs (download_base_folder cfg) w of
           Inl err \<Rightarrow> (Inl err, w)
         | Inr w1 \<Rightarrow>
             (case load_download_history e (download_history_file cfg) w1 of
                (Inl err, w2) \<Rightarrow> (Inl err, w2)
              | (Inr downloaded_urls_history, w2) \<Rightarrow> (Inr (Some downloaded_urls_history), w2))))"

text \<open>The history persistence logic at the end of \<open>main\<close> (lines 336 to 340).\<close>

definition finalize :: "env \<Rightarrow> string \<Rightarrow> nat \<Rightarrow> pykey set \<Rightarrow> world \<Rightarrow> world" where
  "finalize e history_file_path initial_downloaded_count downloaded_urls_history w =
     (if card downloaded_urls_history > initial_downloaded_count
      then save_download_history e history_file_path downloaded_urls_history w
      else w)"

text \<open>
  \<open>main\<close>, given what \<open>load_config\<close> returned and the force flag of the command line.
  A run ends as \<open>NotStarted\<close> (an early \<open>return\<close>), as \<open>Finalized\<close> with the history it
  reached the persistence logic with, or with an exception nothing caught (\<open>Inl\<close>).
\<close>

datatype outcome = NotStarted | Finalized "pykey set"

definition main :: "env \<Rightarrow> config option \<Rightarrow> bool \<Rightarrow> world \<Rightarrow> (outcome result \<times> world) option" where
  "main e config force_download w =
     (case config of
        None \<Rightarrow> Some (Inr NotStarted, say NoConfig w)
      | Some cfg \<Rightarrow>
          (case start_run e cfg w of
             (Inl err, w0) \<Rightarrow> Some (Inl err, w0)
           | (Inr None, w0) \<Rightarrow> Some (Inr NotStarted, w0)
           | (Inr (Some downloaded_urls_history), w0) \<Rightarrow>
               (case process_urls e cfg force_download (target_urls cfg) downloaded_urls_history w0 of
                  None \<Rightarrow> None
                | Some (Inl err, w1) \<Rightarrow> Some (Inl err, w1)
                | Some (Inr history1, w1) \<Rightarrow>
                    Some (Inr (Finalized history1),
                          finalize e (download_history_file cfg) (card downloaded_urls_history)
                            history1 w1))))"

section \<open>A sample environment\<close>

text \<open>
  What the libraries return on the inputs of the examples below: a page at
  \<open>http://h/\<close> with four links, a page at \<open>http://g/\<close> whose only link has an
  unbalanced bracket, and three history files.
\<close>

definition demo_html :: string where
  "demo_html = ''<a href=a.pdf>1</a><a href=B.PDF>2</a><a href=a.pdf?alt=b.pdf>3</a><a href=c.pdf?v=2>4</a>''"

definition demo_soup_hrefs :: "string \<Rightarrow> string list" where
  "demo_soup_hrefs html =
     (if html = demo_html then [''a.pdf'', ''B.PDF'', ''a.pdf?alt=b.pdf'', ''c.pdf?v=2'']
      else if html = ''<a href=//[>x</a>'' then [''//['']
      else [])"

definition demo_urljoin :: "string \<Rightarrow> string \<Rightarrow> string result" where
  "demo_urljoin base href = (if href = ''//['' then Inl ValueError else Inr (base @ href))"

definition demo_url_path :: "string \<Rightarrow> string result" where
  "demo_url_path url = Inr (takeWhile (\<lambda>c. c \<noteq> CHR ''?'') (drop 8 url))"

text \<open>The history file of one URL, as \<open>json.dump\<close> with \<open>indent=4\<close> writes it.\<close>

definition demo_history_text :: string where
  "demo_history_text =
     ''['' @ [CHR 0x0A] @ ''    '' @ [CHR 0x22] @ ''http://h/a.pdf'' @ [CHR 0x22, CHR 0x0A] @ '']''"

definition demo_json_loads :: "string \<Rightarrow> json result" where
  "demo_json_loads text =
     (if text = ''5'' then Inr (JInt 5)
      else if text = ''[1, 2]'' then Inr (JArr [JInt 1, JInt 2])
      else if text = demo_history_text then Inr (JArr [JStr ''http://h/a.pdf''])
      else Inl JSONDecodeError)"

definition demo_dump_set :: "pykey set \<Rightarrow> string" where
  "demo_dump_set s = (if s = {KStr ''http://h/a.pdf''} then demo_history_text else ''[]'')"

definition demo_http_get :: "nat \<Rightarrow> string \<Rightarrow> response" where
  "demo_http_get n url =
     (if url = ''http://h/'' then HttpOk demo_html
      else if url = ''http://g/'' then HttpOk ''<a href=//[>x</a>''
      else if url = ''http://h/a.pdf'' then HttpOk ''%PDF''
      else HttpFail HTTPError)"

definition demo_env :: env where
  "demo_env = \<lparr>soup_hrefs = demo_soup_hrefs, urljoin = demo_urljoin, url_path = demo_url_path,
     json_loads = demo_json_loads, dump_set = demo_dump_set, http_get = demo_http_get\<rparr>"

text \<open>A world with nothing on disk, and the configuration of the examples.\<close>

definition demo_world :: world where
  "demo_world = \<lparr>fs = Map.empty, denied = {}, today = ''2024-05-01'', requests = [], slept = 0,
     stdout = []\<rparr>"

text \<open>The staging folder with one file in it, and a world where the name \<open>a.pdf\<close> is
  taken in the folder the rule \<open>type\<close> sends it to.\<close>

definition demo_staged :: world where
  "demo_staged = demo_world\<lparr>fs := [''dl'' \<mapsto> Dir, ''dl/a.txt'' \<mapsto> File ''one'']\<rparr>"

definition demo_taken :: world where
  "demo_taken = demo_world\<lparr>fs := [''dl'' \<mapsto> Dir, ''dl/Pdf'' \<mapsto> Dir,
     ''dl/Pdf/a.pdf'' \<mapsto> File ''old'']\<rparr>"

definition demo_config :: config where
  "demo_config = \<lparr>target_urls = [''http://h/''], download_base_folder = ''dl'',
     organization_rule = ''type'', allowed_extensions = [''.pdf''], request_delay_seconds = 2,
     download_history_file = ''h.json''\<rparr>"

section \<open>Link extraction: which links are kept\<close>

lemmas demo_defs = demo_env_def demo_soup_hrefs_def demo_urljoin_def demo_url_path_def
  demo_json_loads_def demo_http_get_def demo_html_def demo_world_def demo_config_def
  demo_history_text_def demo_dump_set_def

lemma endswith_suffix: "endswith ext s \<longleftrightarrow> suffix ext s"
proof
  assume "endswith ext s"
  then have "s = take (length s - length ext) s @ ext"
    by (metis append_take_drop_id endswith_def)
  then show "suffix ext s" by (metis suffixI)
next
  assume "suffix ext s"
  then obtain zs where "s = zs @ ext" by (auto simp: suffix_def)
  then show "endswith ext s" by (simp add: endswith_def)
qed

lemma suffix_after_mark:
  assumes "suffix ext (a @ [c] @ b)"
  shows "c \<in> set ext \<or> suffix ext b"
proof -
  from assms have "suffix ext ((a @ [c]) @ b)" by simp
  then have "suffix ext b \<or> (\<exists>xs. suffix xs (a @ [c]) \<and> ext = xs @ b)"
    using suffix_append [of ext "a @ [c]" b] by blast
  then show ?thesis
  proof
    assume "suffix ext b"
    then show ?thesis ..
  next
    assume "\<exists>xs. suffix xs (a @ [c]) \<and> ext = xs @ b"
    then obtain xs zs where xs: "a @ [c] = zs @ xs" "ext = xs @ b"
      by (auto simp: suffix_def)
    show ?thesis
    proof (cases "xs = []")
      case True
      with xs(2) show ?thesis by simp
    next
      case False
      then have "last (zs @ xs) = last xs" by simp
      with xs(1) have "last xs = c" by (metis last_snoc)
      with False have "c \<in> set xs" using last_in_set by blast
      with xs(2) show ?thesis by simp
    qed
  qed
qed

text \<open>The links kept are the resolved hrefs whose lower-cased URL ends with a configured
  suffix, the suffix taken as it is written.\<close>

lemma collect_links_set:
  "collect_links e b allowed found hrefs = Inr links \<Longrightarrow>
   set links = set found \<union>
     {u. \<exists>h \<in> set hrefs. urljoin e b h = Inr u \<and> (\<exists>ext \<in> set allowed. endswith ext (str_lower u))}"
proof (induction hrefs arbitrary: found)
  case Nil
  then show ?case by auto
next
  case (Cons h hs)
  show ?case
  proof (cases "urljoin e b h")
    case (Inl err)
    with Cons.prems show ?thesis by simp
  next
    case (Inr u)
    let ?found = "if list_ex (\<lambda>ext. endswith ext (str_lower u)) allowed \<and> u \<notin> set found
                  then found @ [u] else found"
    from Cons.prems Inr have "collect_links e b allowed ?found hs = Inr links" by simp
    from Cons.IH [OF this] Inr show ?thesis
      by (auto simp: list_ex_iff split: if_splits)
  qed
qed

lemma find_download_links_iff:
  "find_download_links e html b allowed = Inr links \<Longrightarrow>
   u \<in> set links \<longleftrightarrow>
     (\<exists>h \<in> set (soup_hrefs e html). urljoin e b h = Inr u) \<and>
     (\<exists>ext \<in> set allowed. endswith ext (str_lower u))"
  unfolding find_download_links_def by (drule collect_links_set) auto

text \<open>
  C1. The claim asks for a match that ignores the case of the URL and of the configured
  suffix alike. The code lower-cases the URL only (line 117): on the sample page the suffix
  \<open>.pdf\<close> keeps \<open>a.pdf\<close> and \<open>B.PDF\<close>, while the suffix \<open>.PDF\<close> keeps no link at all, neither
  \<open>a.pdf\<close> nor \<open>B.PDF\<close>.
\<close>

theorem find_download_links_upper_case_suffix:
  "find_download_links demo_env demo_html ''http://h/'' [''.PDF''] = Inr [] \<and>
   find_download_links demo_env demo_html ''http://h/'' [''.pdf'']
     = Inr [''http://h/a.pdf'', ''http://h/B.PDF'', ''http://h/a.pdf?alt=b.pdf'']"
  by (simp add: find_download_links_def demo_defs endswith_def str_lower_def lower_char_def)

text \<open>
  C3, as amended. A link is kept only if its whole resolved URL, lower-cased, ends with a
  configured suffix. For a URL \<open>p?q\<close> the matching suffix either reaches over the question
  mark or is a suffix of the lower-cased query \<open>q\<close>: a query string makes the link miss
  unless the query itself ends with the suffix.
\<close>

theorem find_download_links_only_if_suffix:
  assumes "find_download_links e html b allowed = Inr links" and "u \<in> set links"
  shows "\<exists>ext \<in> set allowed. endswith ext (str_lower u) \<and>
           (\<forall>p q. u = p @ ''?'' @ q \<longrightarrow> CHR ''?'' \<in> set ext \<or> endswith ext (str_lower q))"
proof -
  from assms obtain ext where ext: "ext \<in> set allowed" "endswith ext (str_lower u)"
    using find_download_links_iff by blast
  have "CHR ''?'' \<in> set ext \<or> endswith ext (str_lower q)" if u: "u = p @ ''?'' @ q" for p q
  proof -
    have "str_lower u = str_lower p @ [CHR ''?''] @ str_lower q"
      by (simp add: u str_lower_def lower_char_def)
    with ext(2) have "suffix ext (str_lower p @ [CHR ''?''] @ str_lower q)"
      by (simp only: endswith_suffix)
    from suffix_after_mark [OF this] show ?thesis
      by (simp only: endswith_suffix)
  qed
  with ext show ?thesis by blast
qed

text \<open>On the sample page the third link is kept, and the suffix \<open>.pdf\<close> that matches it
  is a suffix of its query string.\<close>

theorem find_download_links_only_if_suffix_witness:
  "\<exists>ext \<in> set [''.pdf'']. endswith ext (str_lower ''http://h/a.pdf?alt=b.pdf'') \<and>
     (CHR ''?'' \<in> set ext \<or> endswith ext (str_lower ''alt=b.pdf''))"
proof -
  have 1: "find_download_links demo_env demo_html ''http://h/'' [''.pdf'']
    = Inr [''http://h/a.pdf'', ''http://h/B.PDF'', ''http://h/a.pdf?alt=b.pdf'']"
    by (simp add: find_download_links_def demo_defs endswith_def str_lower_def lower_char_def)
  have 2: "''http://h/a.pdf?alt=b.pdf''
    \<in> set [''http://h/a.pdf'', ''http://h/B.PDF'', ''http://h/a.pdf?alt=b.pdf'']"
    by simp
  have 3: "''http://h/a.pdf?alt=b.pdf'' = ''http://h/a.pdf'' @ ''?'' @ ''alt=b.pdf''"
    by simp
  from find_download_links_only_if_suffix [OF 1 2] 3 show ?thesis by blast
qed

text \<open>
  C3 as stated fails: the link \<open>http://h/a.pdf?alt=b.pdf\<close> has the path \<open>/a.pdf\<close>, which
  ends with the allowed suffix, and carries a query string, and it is kept.
\<close>

theorem find_download_links_query_string_kept:
  "url_path demo_env ''http://h/a.pdf?alt=b.pdf'' = Inr ''/a.pdf''
   \<and> endswith ''.pdf'' (str_lower ''/a.pdf'')
   \<and> ''http://h/a.pdf?alt=b.pdf'' = ''http://h/a.pdf'' @ ''?'' @ ''alt=b.pdf''
   \<and> find_download_links demo_env demo_html ''http://h/'' [''.pdf'']
        = Inr [''http://h/a.pdf'', ''http://h/B.PDF'', ''http://h/a.pdf?alt=b.pdf'']"
  by (simp add: find_download_links_def demo_defs endswith_def str_lower_def lower_char_def)

section \<open>Loading the history\<close>

text \<open>
  C8. Loading the history never raises: it always returns a set. When no file is there the
  set is empty and nothing is printed; when the file can be read and \<open>json.load\<close> rejects its
  content, the set is empty and the warning about a corrupt history file is the line added
  to the output.
\<close>

theorem load_download_history_never_raises:
  "(\<exists>history w'. load_download_history e p w = (Inr history, w'))
   \<and> (\<not> path_exists w p \<longrightarrow> load_download_history e p w = (Inr {}, w))
   \<and> (\<forall>text. open_read p w = Inr text \<and> json_loads e text = Inl JSONDecodeError
        \<longrightarrow> load_download_history e p w = (Inr {}, say (HistoryCorrupt p) w)
            \<and> stdout (say (HistoryCorrupt p) w) = stdout w @ [HistoryCorrupt p])"
proof (intro conjI allI impI)
  show "\<exists>history w'. load_download_history e p w = (Inr history, w')"
    by (cases "read_history e p w"; cases "projl (read_history e p w)")
       (simp_all add: load_download_history_def split: pyerror.splits)
next
  assume "\<not> path_exists w p"
  then show "load_download_history e p w = (Inr {}, w)"
    by (simp add: load_download_history_def)
next
  fix body
  assume a: "open_read p w = Inr body \<and> json_loads e body = Inl JSONDecodeError"
  then have "path_exists w p"
    by (auto simp: open_read_def path_exists_def split: option.splits)
  moreover from a have "read_history e p w = Inl JSONDecodeError"
    by (simp add: read_history_def)
  ultimately show "load_download_history e p w = (Inr {}, say (HistoryCorrupt p) w)"
    by (simp add: load_download_history_def)
next
  show "stdout (say (HistoryCorrupt p) w) = stdout w @ [HistoryCorrupt p]"
    by (simp add: say_def)
qed

text \<open>An absent history file, and one that holds a lone opening brace.\<close>

theorem load_download_history_never_raises_witness:
  "\<not> path_exists demo_world ''h.json''
   \<and> load_download_history demo_env ''h.json'' demo_world = (Inr {}, demo_world)
   \<and> open_read ''h.json'' (write_file ''h.json'' ''{'' demo_world) = Inr ''{''
   \<and> json_loads demo_env ''{'' = Inl JSONDecodeError
   \<and> load_download_history demo_env ''h.json'' (write_file ''h.json'' ''{'' demo_world)
       = (Inr {}, say (HistoryCorrupt ''h.json'') (write_file ''h.json'' ''{'' demo_world))"
proof -
  have 1: "\<not> path_exists demo_world ''h.json''"
    by (simp add: path_exists_def demo_defs)
  have 2: "open_read ''h.json'' (write_file ''h.json'' ''{'' demo_world) = Inr ''{''
     \<and> json_loads demo_env ''{'' = Inl JSONDecodeError"
    by (simp add: open_read_def write_file_def demo_defs)
  from load_download_history_never_raises [of demo_env "''h.json''" demo_world] 1
    load_download_history_never_raises [of demo_env "''h.json''" "write_file ''h.json'' ''{'' demo_world"] 2
  show ?thesis by blast
qed

text \<open>
  C10, as amended. A history file of valid JSON is handed to \<open>set()\<close> whatever its shape.
  Where \<open>set()\<close> accepts the value (a string, an object, an array of scalars) the result
  is that set, with no warning: a JSON string loads as the set of its characters. Where
  \<open>set()\<close> raises (a number, a boolean, null, an array holding an array or an object), the
  general handler of line 58 prints a warning and the history is empty.
\<close>

theorem load_download_history_wrong_shape:
  assumes "open_read p w = Inr text" and "json_loads e text = Inr v"
  shows "load_download_history e p w =
           (case py_set v of
              Inr history \<Rightarrow> (Inr history, w)
            | Inl err \<Rightarrow> (Inr {}, say (HistoryLoadFailed p err) w))
         \<and> (\<forall>s. v = JStr s \<longrightarrow> load_download_history e p w = (Inr ((\<lambda>c. KStr [c]) ` set s), w))"
proof -
  from assms(1) have ex: "path_exists w p"
    by (auto simp: open_read_def path_exists_def split: option.splits)
  from assms have rd: "read_history e p w = py_set v"
    by (simp add: read_history_def)
  have ne: "err \<noteq> JSONDecodeError" if "py_set v = Inl err" for err
  proof -
    have "hash_key x = Inl err' \<Longrightarrow> err' = TypeError" for x err'
      by (cases x) auto
    then have "hash_keys xs = Inl err' \<Longrightarrow> err' = TypeError" for xs err'
      by (induction xs) (auto split: sum.splits)
    with that have "err = TypeError" by (cases v) auto
    then show ?thesis by simp
  qed
  have 1: "load_download_history e p w =
           (case py_set v of
              Inr history \<Rightarrow> (Inr history, w)
            | Inl err \<Rightarrow> (Inr {}, say (HistoryLoadFailed p err) w))"
  proof (cases "py_set v")
    case (Inl err)
    with ne [OF Inl] ex rd show ?thesis
      by (cases err) (simp_all add: load_download_history_def)
  next
    case (Inr h)
    with ex rd show ?thesis by (simp add: load_download_history_def)
  qed
  then show ?thesis by auto
qed

text \<open>A history file holding the array of 1 and 2.\<close>

theorem load_download_history_wrong_shape_witness:
  "load_download_history demo_env ''h.json'' (write_file ''h.json'' ''[1, 2]'' demo_world)
     = (Inr {KInt 1, KInt 2}, write_file ''h.json'' ''[1, 2]'' demo_world)"
proof -
  have 1: "open_read ''h.json'' (write_file ''h.json'' ''[1, 2]'' demo_world) = Inr ''[1, 2]''"
    by (simp add: open_read_def write_file_def demo_defs)
  have 2: "json_loads demo_env ''[1, 2]'' = Inr (JArr [JInt 1, JInt 2])"
    by (simp add: demo_defs)
  from load_download_history_wrong_shape [OF 1 2] show ?thesis by simp
qed

text \<open>
  C10 as stated fails: a history file holding the number 5 is valid JSON of the wrong
  shape, and it loads as the empty set, with a warning.
\<close>

theorem load_download_history_number_falls_back:
  "open_read ''h.json'' (write_file ''h.json'' ''5'' demo_world) = Inr ''5''
   \<and> json_loads demo_env ''5'' = Inr (JInt 5)
   \<and> load_download_history demo_env ''h.json'' (write_file ''h.json'' ''5'' demo_world)
     = (Inr {}, say (HistoryLoadFailed ''h.json'' TypeError) (write_file ''h.json'' ''5'' demo_world))"
  by (simp add: load_download_history_def read_history_def open_read_def path_exists_def
      write_file_def demo_defs)

section \<open>Organizing: the unknown rule\<close>

text \<open>
  C7. With a staged file present and a rule other than the three known ones,
  \<open>organize_file\<close> reports the unknown rule and returns nothing; the file system is the one
  it was given, so the staged file is where it was.
\<close>

theorem organize_file_unknown_rule:
  assumes "rule_type \<notin> {''date'', ''type'', ''type_then_date''}"
    and "file_path \<noteq> []" and "path_exists w file_path"
  shows "organize_file file_path base_download_folder rule_type w
           = Some (Inr None, say (UnknownRule rule_type) w)
         \<and> fs (say (UnknownRule rule_type) w) = fs w"
  using assms by (simp add: organize_file_def rule_subfolders_def say_def Let_def)

text \<open>The rule \<open>size\<close> on a staged file.\<close>

theorem organize_file_unknown_rule_witness:
  "organize_file ''dl/a.txt'' ''dl'' ''size'' (write_file ''dl/a.txt'' ''one'' demo_world)
     = Some (Inr None, say (UnknownRule ''size'') (write_file ''dl/a.txt'' ''one'' demo_world))
   \<and> fs (say (UnknownRule ''size'') (write_file ''dl/a.txt'' ''one'' demo_world)) ''dl/a.txt''
     = Some (File ''one'')"
proof -
  have 1: "''size'' \<notin> {''date'', ''type'', ''type_then_date''}" by simp
  have 2: "''dl/a.txt'' \<noteq> []" by simp
  have 3: "path_exists (write_file ''dl/a.txt'' ''one'' demo_world) ''dl/a.txt''"
    by (simp add: path_exists_def write_file_def)
  have 4: "fs (write_file ''dl/a.txt'' ''one'' demo_world) ''dl/a.txt'' = Some (File ''one'')"
    by (simp add: write_file_def)
  from organize_file_unknown_rule [OF 1 2 3, of "''dl''"] 4 show ?thesis by simp
qed

section \<open>Downloading: when the network is used\<close>

lemma basename_no_slash: "CHR ''/'' \<notin> set (basename p)"
proof
  assume "CHR ''/'' \<in> set (basename p)"
  then have "CHR ''/'' \<in> set (takeWhile (\<lambda>c. c \<noteq> CHR ''/'') (rev p))"
    by (simp add: basename_def)
  then show False by (auto dest: set_takeWhileD)
qed

lemma path_join_longer:
  assumes "b \<noteq> []" and "CHR ''/'' \<notin> set b"
  shows "path_join a b \<noteq> a"
proof -
  from assms have "hd b \<noteq> CHR ''/''" by (cases b) auto
  with assms(1) show ?thesis by (auto simp: path_join_def)
qed

lemma makedirs_other:
  "makedirs d w = Inr w1 \<Longrightarrow> p \<noteq> d \<Longrightarrow> path_exists w1 p = path_exists w p"
  by (auto simp: makedirs_def path_exists_def split: if_splits option.splits node.splits)

lemma makedirs_requests: "makedirs d w = Inr w1 \<Longrightarrow> requests w1 = requests w"
  by (auto simp: makedirs_def split: if_splits option.splits node.splits)

text \<open>
  C5. When the path of the URL has no last component, \<open>download_file\<close> fails and sends no
  request. When a file of that name is already in the staging directory, it returns the path
  of that file and leaves the world as it was. And if a request was sent, then the URL had
  a file name and no file of that name existed.
\<close>

theorem download_file_network_only_when_needed:
  "(url_path e file_url = Inr p \<and> basename p = [] \<longrightarrow>
      download_file e file_url destination_folder w = (Inr None, say (NoFilename file_url) w)
      \<and> requests (say (NoFilename file_url) w) = requests w)
   \<and> (url_path e file_url = Inr p \<and> basename p \<noteq> [] \<and> destination_folder \<noteq> []
        \<and> fs w destination_folder = Some Dir
        \<and> path_exists w (path_join destination_folder (basename p)) \<longrightarrow>
      download_file e file_url destination_folder w
        = (Inr (Some (path_join destination_folder (basename p))), w))
   \<and> (requests (snd (download_file e file_url destination_folder w)) \<noteq> requests w \<longrightarrow>
      (\<exists>p'. url_path e file_url = Inr p' \<and> basename p' \<noteq> []
          \<and> \<not> path_exists w (path_join destination_folder (basename p'))))"
proof (intro conjI impI)
  assume "url_path e file_url = Inr p \<and> basename p = []"
  then show "download_file e file_url destination_folder w = (Inr None, say (NoFilename file_url) w)"
    by (simp add: download_file_def)
next
  show "requests (say (NoFilename file_url) w) = requests w" by (simp add: say_def)
next
  assume a: "url_path e file_url = Inr p \<and> basename p \<noteq> [] \<and> destination_folder \<noteq> []
        \<and> fs w destination_folder = Some Dir
        \<and> path_exists w (path_join destination_folder (basename p))"
  then have "makedirs destination_folder w = Inr w"
    by (auto simp: makedirs_def)
  with a show "download_file e file_url destination_folder w
        = (Inr (Some (path_join destination_folder (basename p))), w)"
    by (simp add: download_file_def)
next
  assume r: "requests (snd (download_file e file_url destination_folder w)) \<noteq> requests w"
  show "\<exists>p'. url_path e file_url = Inr p' \<and> basename p' \<noteq> []
          \<and> \<not> path_exists w (path_join destination_folder (basename p'))"
  proof (cases "url_path e file_url")
    case (Inl err)
    with r show ?thesis by (simp add: download_file_def)
  next
    case (Inr p')
    show ?thesis
    proof (cases "basename p' = []")
      case True
      with r Inr show ?thesis by (simp add: download_file_def say_def)
    next
      case False
      show ?thesis
      proof (cases "makedirs destination_folder w")
        case (Inl err)
        with r Inr False show ?thesis by (simp add: download_file_def)
      next
        case mk: (Inr w1)
        have neq: "path_join destination_folder (basename p') \<noteq> destination_folder"
          using False basename_no_slash by (rule path_join_longer)
        have "\<not> path_exists w1 (path_join destination_folder (basename p'))"
        proof
          assume "path_exists w1 (path_join destination_folder (basename p'))"
          with r Inr False mk show False
            by (simp add: download_file_def makedirs_requests)
        qed
        with makedirs_other [OF mk neq] Inr False show ?thesis by simp
      qed
    qed
  qed
qed

text \<open>A URL without a file name, a file already staged, and a first download.\<close>

theorem download_file_network_only_when_needed_witness:
  "download_file demo_env ''http://h/'' ''dl'' demo_world
     = (Inr None, say (NoFilename ''http://h/'') demo_world)
   \<and> download_file demo_env ''http://h/a.pdf'' ''dl''
        (demo_world\<lparr>fs := [''dl'' \<mapsto> Dir, ''dl/a.pdf'' \<mapsto> File ''old'']\<rparr>)
     = (Inr (Some ''dl/a.pdf''), demo_world\<lparr>fs := [''dl'' \<mapsto> Dir, ''dl/a.pdf'' \<mapsto> File ''old'']\<rparr>)
   \<and> requests (snd (download_file demo_env ''http://h/a.pdf'' ''dl'' demo_world))
     = [''http://h/a.pdf'']
   \<and> \<not> path_exists demo_world ''dl/a.pdf''"
proof -
  let ?w = "demo_world\<lparr>fs := [''dl'' \<mapsto> Dir, ''dl/a.pdf'' \<mapsto> File ''old'']\<rparr>"
  have 1: "url_path demo_env ''http://h/'' = Inr ''/'' \<and> basename ''/'' = []"
    by (simp add: demo_defs basename_def)
  have 2: "url_path demo_env ''http://h/a.pdf'' = Inr ''/a.pdf'' \<and> basename ''/a.pdf'' = ''a.pdf''
    \<and> path_join ''dl'' ''a.pdf'' = ''dl/a.pdf''"
    by (simp add: demo_defs basename_def path_join_def)
  have 3: "''dl'' \<noteq> [] \<and> fs ?w ''dl'' = Some Dir \<and> path_exists ?w ''dl/a.pdf''"
    by (simp add: path_exists_def)
  have 4: "requests (snd (download_file demo_env ''http://h/a.pdf'' ''dl'' demo_world))
     = [''http://h/a.pdf'']"
    by (simp add: download_file_def demo_defs basename_def path_join_def makedirs_def
        path_exists_def open_write_def write_file_def Let_def)
  have 5: "requests demo_world = []" by (simp add: demo_defs)
  from download_file_network_only_when_needed
         [of demo_env "''http://h/''" "''/''" "''dl''" demo_world] 1
  have a: "download_file demo_env ''http://h/'' ''dl'' demo_world
     = (Inr None, say (NoFilename ''http://h/'') demo_world)"
    by blast
  from download_file_network_only_when_needed
         [of demo_env "''http://h/a.pdf''" "''/a.pdf''" "''dl''" ?w] 2 3
  have b: "download_file demo_env ''http://h/a.pdf'' ''dl'' ?w = (Inr (Some ''dl/a.pdf''), ?w)"
    by simp
  from download_file_network_only_when_needed
         [of demo_env "''http://h/a.pdf''" "''/a.pdf''" "''dl''" demo_world] 2 4 5
  have c: "\<not> path_exists demo_world ''dl/a.pdf''"
    by auto
  from a b c 4 show ?thesis by blast
qed

section \<open>The history during a run\<close>

lemma pair_collapse: "fst x = r \<Longrightarrow> x = (r, snd x)"
  by (cases x) simp

lemma option_pair_collapse: "map_option fst x = Some r \<Longrightarrow> x = Some (r, snd (the x))"
  by (cases x) auto

text \<open>
  C2. Processing one link changes the history only by adding that link, and only when the
  download returned a path and organizing that file returned a path. When the download
  fails, or the download succeeds and organizing fails, the history the turn ends with is
  the history it started with.
\<close>

theorem process_link_history_only_on_success:
  "(process_link e cfg force link hist w = Some (Inr hist', w') \<and> hist' \<noteq> hist \<longrightarrow>
      hist' = insert (KStr link) hist
      \<and> (\<exists>p w1 q w2. download_file e link (download_base_folder cfg) w = (Inr (Some p), w1)
            \<and> organize_file p (download_base_folder cfg) (organization_rule cfg) w1
                = Some (Inr (Some q), w2)))
   \<and> (\<forall>w1. download_file e link (download_base_folder cfg) w = (Inr None, w1) \<longrightarrow>
         (\<exists>w2. process_link e cfg force link hist w = Some (Inr hist, w2)))
   \<and> (\<forall>p w1 w2. download_file e link (download_base_folder cfg) w = (Inr (Some p), w1)
         \<and> organize_file p (download_base_folder cfg) (organization_rule cfg) w1
             = Some (Inr None, w2) \<longrightarrow>
         (\<exists>w3. process_link e cfg force link hist w = Some (Inr hist, w3)))"
  by (auto simp: process_link_def split: if_splits prod.splits sum.splits option.splits)

text \<open>
  The first link of the sample page is downloaded and organized; the second cannot be
  downloaded; with the rule \<open>size\<close> the first is downloaded and not organized.
\<close>

theorem process_link_history_only_on_success_witness:
  "(\<exists>p w1 q w2. download_file demo_env ''http://h/a.pdf'' ''dl'' demo_world = (Inr (Some p), w1)
       \<and> organize_file p ''dl'' ''type'' w1 = Some (Inr (Some q), w2))
   \<and> (\<exists>w2. process_link demo_env demo_config False ''http://h/B.PDF'' {} demo_world
         = Some (Inr {}, w2))
   \<and> (\<exists>w3. process_link demo_env (demo_config\<lparr>organization_rule := ''size''\<rparr>) False
          ''http://h/a.pdf'' {} demo_world = Some (Inr {}, w3))"
proof -
  let ?size = "demo_config\<lparr>organization_rule := ''size''\<rparr>"
  have cfg: "download_base_folder demo_config = ''dl''" "organization_rule demo_config = ''type''"
    "download_base_folder ?size = ''dl''" "organization_rule ?size = ''size''"
    by (simp_all add: demo_config_def)
  have "map_option fst (process_link demo_env demo_config False ''http://h/a.pdf'' {} demo_world)
          = Some (Inr {KStr ''http://h/a.pdf''})"
    by code_simp
  from option_pair_collapse [OF this] obtain w'
    where a: "process_link demo_env demo_config False ''http://h/a.pdf'' {} demo_world
          = Some (Inr {KStr ''http://h/a.pdf''}, w')" ..
  have a': "{KStr ''http://h/a.pdf''} \<noteq> ({} :: pykey set)" by simp
  have "fst (download_file demo_env ''http://h/B.PDF'' ''dl'' demo_world) = Inr None"
    by code_simp
  from pair_collapse [OF this] obtain w1
    where b: "download_file demo_env ''http://h/B.PDF'' ''dl'' demo_world = (Inr None, w1)" ..
  have "fst (download_file demo_env ''http://h/a.pdf'' ''dl'' demo_world) = Inr (Some ''dl/a.pdf'')"
    by code_simp
  from pair_collapse [OF this] obtain w1'
    where c1: "download_file demo_env ''http://h/a.pdf'' ''dl'' demo_world
                 = (Inr (Some ''dl/a.pdf''), w1')"
      and w1': "w1' = snd (download_file demo_env ''http://h/a.pdf'' ''dl'' demo_world)"
    by blast
  have "map_option fst (organize_file ''dl/a.pdf'' ''dl'' ''size''
          (snd (download_file demo_env ''http://h/a.pdf'' ''dl'' demo_world))) = Some (Inr None)"
    by code_simp
  from option_pair_collapse [OF this] w1' obtain w2
    where c2: "organize_file ''dl/a.pdf'' ''dl'' ''size'' w1' = Some (Inr None, w2)"
    by blast
  from process_link_history_only_on_success [of demo_env demo_config False "''http://h/a.pdf''" "{}" demo_world
             "{KStr ''http://h/a.pdf''}" w'] a a' cfg
  have 1: "\<exists>p w1 q w2. download_file demo_env ''http://h/a.pdf'' ''dl'' demo_world = (Inr (Some p), w1)
       \<and> organize_file p ''dl'' ''type'' w1 = Some (Inr (Some q), w2)"
    by simp
  from process_link_history_only_on_success [of demo_env demo_config False "''http://h/B.PDF''" "{}" demo_world] b cfg
  have 2: "\<exists>w2. process_link demo_env demo_config False ''http://h/B.PDF'' {} demo_world
         = Some (Inr {}, w2)"
    by simp
  from process_link_history_only_on_success [of demo_env ?size False "''http://h/a.pdf''" "{}" demo_world] c1 c2 cfg
  have 3: "\<exists>w3. process_link demo_env ?size False ''http://h/a.pdf'' {} demo_world = Some (Inr {}, w3)"
    by simp
  from 1 2 3 show ?thesis by blast
qed

text \<open>The history only grows during a run, and it stays finite.\<close>

lemma process_link_mono:
  "process_link e cfg force link hist w = Some (Inr hist', w') \<Longrightarrow>
   hist \<subseteq> hist' \<and> (finite hist \<longrightarrow> finite hist')"
  by (auto simp: process_link_def split: if_splits prod.splits sum.splits option.splits)

lemma process_links_mono:
  "process_links e cfg force links hist w = Some (Inr hist', w') \<Longrightarrow>
   hist \<subseteq> hist' \<and> (finite hist \<longrightarrow> finite hist')"
proof (induction links arbitrary: hist w)
  case Nil
  then show ?case by simp
next
  case (Cons link links)
  then obtain h1 w1 where 1: "process_link e cfg force link hist w = Some (Inr h1, w1)"
    and 2: "process_links e cfg force links h1 w1 = Some (Inr hist', w')"
    by (auto split: option.splits sum.splits prod.splits)
  from process_link_mono [OF 1] Cons.IH [OF 2] show ?case by auto
qed

lemma process_url_mono:
  "process_url e cfg force url hist w = Some (Inr hist', w') \<Longrightarrow>
   hist \<subseteq> hist' \<and> (finite hist \<longrightarrow> finite hist')"
  by (auto simp: process_url_def split: if_splits prod.splits sum.splits option.splits
      dest!: process_links_mono)

lemma process_urls_mono:
  "process_urls e cfg force urls hist w = Some (Inr hist', w') \<Longrightarrow>
   hist \<subseteq> hist' \<and> (finite hist \<longrightarrow> finite hist')"
proof (induction urls arbitrary: hist w)
  case Nil
  then show ?case by simp
next
  case (Cons url urls)
  then obtain h1 w1 where 1: "process_url e cfg force url hist w = Some (Inr h1, w1)"
    and 2: "process_urls e cfg force urls h1 w1 = Some (Inr hist', w')"
    by (auto split: option.splits sum.splits prod.splits)
  from process_url_mono [OF 1] Cons.IH [OF 2] show ?case by auto
qed

lemma hash_keys_finite: "hash_keys xs = Inr ks \<Longrightarrow> finite ks"
  by (induction xs arbitrary: ks) (auto split: sum.splits)

lemma py_set_finite: "py_set v = Inr ks \<Longrightarrow> finite ks"
  by (cases v) (auto dest: hash_keys_finite)

lemma load_download_history_finite:
  "load_download_history e p w = (Inr hist, w') \<Longrightarrow> finite hist"
  by (auto simp: load_download_history_def read_history_def
      split: if_splits sum.splits pyerror.splits dest: py_set_finite)

lemma start_run_loads:
  assumes "start_run e cfg w = (Inr (Some hist), w0)"
  shows "\<exists>wm. makedirs (download_base_folder cfg) w = Inr wm
          \<and> load_download_history e (download_history_file cfg) wm = (Inr hist, w0)"
  using assms by (auto simp: start_run_def split: if_splits sum.splits prod.splits)

lemma makedirs_frame:
  "makedirs d w = Inr w1 \<Longrightarrow> denied w1 = denied w \<and> (\<forall>p. p \<noteq> d \<longrightarrow> fs w1 p = fs w p)"
  by (auto simp: makedirs_def split: if_splits option.splits node.splits)

lemma open_read_frame:
  "denied w1 = denied w \<Longrightarrow> fs w1 p = fs w p \<Longrightarrow> open_read p w1 = open_read p w"
  by (auto simp: open_read_def split: option.splits node.splits)

text \<open>What loading returns: the set read from the file, or the empty set when opening,
  parsing or \<open>set()\<close> fails.\<close>

lemma load_download_history_value:
  "fst (load_download_history e p w)
     = Inr (case read_history e p w of Inr ks \<Rightarrow> ks | Inl err \<Rightarrow> {})"
proof (cases "path_exists w p")
  case True
  then show ?thesis
    by (simp add: load_download_history_def split: sum.split pyerror.split)
next
  case False
  then have "read_history e p w = Inl FileNotFoundError"
    by (simp add: read_history_def open_read_def path_exists_def)
  with False show ?thesis by (simp add: load_download_history_def)
qed

text \<open>
  C6. A run that gets past its checks reads the history file first: the history it starts
  with is the set \<open>set()\<close> makes of the JSON value parsed from the content the file has
  when the run begins, and the empty set when the file cannot be opened, its content is
  not JSON, or \<open>set()\<close> rejects the value. The run ends in the persistence logic with a
  history that contains the loaded one. When the two are equal (nothing new, also when a
  forced run recorded again what was there), the persistence logic leaves the world, and
  so the history file, as it found it; when they differ, it is the call of
  \<open>save_download_history\<close>.
\<close>

theorem history_saved_only_if_grown:
  assumes "start_run e cfg w = (Inr (Some hist0), w0)"
    and "process_urls e cfg force (target_urls cfg) hist0 w0 = Some (Inr hist1, w1)"
  shows "(\<exists>wm. makedirs (download_base_folder cfg) w = Inr wm
            \<and> load_download_history e (download_history_file cfg) wm = (Inr hist0, w0))
    \<and> (download_history_file cfg \<noteq> download_base_folder cfg \<longrightarrow>
          hist0 =
            (case open_read (download_history_file cfg) w of
               Inl err \<Rightarrow> {}
             | Inr body \<Rightarrow>
                 (case json_loads e body of
                    Inl err \<Rightarrow> {}
                  | Inr history_list \<Rightarrow>
                      (case py_set history_list of Inl err \<Rightarrow> {} | Inr ks \<Rightarrow> ks))))
    \<and> main e (Some cfg) force w
        = Some (Inr (Finalized hist1),
                finalize e (download_history_file cfg) (card hist0) hist1 w1)
    \<and> hist0 \<subseteq> hist1
    \<and> (hist1 = hist0 \<longrightarrow>
          finalize e (download_history_file cfg) (card hist0) hist1 w1 = w1)
    \<and> (hist1 \<noteq> hist0 \<longrightarrow>
          finalize e (download_history_file cfg) (card hist0) hist1 w1
            = save_download_history e (download_history_file cfg) hist1 w1)"
proof -
  let ?hf = "download_history_file cfg"
  from start_run_loads [OF assms(1)] obtain wm
    where wm: "makedirs (download_base_folder cfg) w = Inr wm"
      "load_download_history e ?hf wm = (Inr hist0, w0)"
    by blast
  have content: "hist0 =
      (case open_read ?hf w of
         Inl err \<Rightarrow> {}
       | Inr body \<Rightarrow>
           (case json_loads e body of
              Inl err \<Rightarrow> {}
            | Inr history_list \<Rightarrow>
                (case py_set history_list of Inl err \<Rightarrow> {} | Inr ks \<Rightarrow> ks)))"
    if other: "?hf \<noteq> download_base_folder cfg"
  proof -
    from makedirs_frame [OF wm(1)] other
    have "open_read ?hf wm = open_read ?hf w" by (intro open_read_frame) simp_all
    then have rd: "read_history e ?hf wm = read_history e ?hf w"
      by (simp add: read_history_def)
    from load_download_history_value [of e ?hf wm] wm(2) rd
    have "hist0 = (case read_history e ?hf w of Inr ks \<Rightarrow> ks | Inl err \<Rightarrow> {})"
      by simp
    then show ?thesis
      by (simp add: read_history_def split: sum.splits)
  qed
  from wm(2) have fin0: "finite hist0" by (rule load_download_history_finite)
  from process_urls_mono [OF assms(2)] fin0 have sub: "hist0 \<subseteq> hist1" and fin1: "finite hist1"
    by simp_all
  have grown: "card hist0 < card hist1" if "hist1 \<noteq> hist0"
    using that sub fin1 by (simp add: psubset_card_mono psubset_eq)
  from assms have m: "main e (Some cfg) force w
        = Some (Inr (Finalized hist1),
                finalize e (download_history_file cfg) (card hist0) hist1 w1)"
    by (simp add: main_def)
  show ?thesis
  proof (intro conjI)
    from wm show "\<exists>wm. makedirs (download_base_folder cfg) w = Inr wm
            \<and> load_download_history e ?hf wm = (Inr hist0, w0)"
      by blast
    show "?hf \<noteq> download_base_folder cfg \<longrightarrow>
          hist0 =
            (case open_read ?hf w of
               Inl err \<Rightarrow> {}
             | Inr body \<Rightarrow>
                 (case json_loads e body of
                    Inl err \<Rightarrow> {}
                  | Inr history_list \<Rightarrow>
                      (case py_set history_list of Inl err \<Rightarrow> {} | Inr ks \<Rightarrow> ks)))"
      by (rule impI) (rule content)
    show "main e (Some cfg) force w
        = Some (Inr (Finalized hist1), finalize e ?hf (card hist0) hist1 w1)"
      by (rule m)
    show "hist0 \<subseteq> hist1" by (rule sub)
    show "hist1 = hist0 \<longrightarrow> finalize e ?hf (card hist0) hist1 w1 = w1"
      by (simp add: finalize_def)
    show "hist1 \<noteq> hist0 \<longrightarrow>
          finalize e ?hf (card hist0) hist1 w1 = save_download_history e ?hf hist1 w1"
      using grown by (simp add: finalize_def)
  qed
qed

text \<open>
  A first run on the sample page, with no history file: it starts from the empty history
  and saves the one link it filed. Then a forced run over a history file that holds that
  link: it starts from the set of that file, records the same link again, and ends in the
  world its loops left, the history file not written.
\<close>

theorem history_saved_only_if_grown_witness:
  "main demo_env (Some demo_config) False demo_world
     = Some (Inr (Finalized {KStr ''http://h/a.pdf''}),
             save_download_history demo_env ''h.json'' {KStr ''http://h/a.pdf''}
               (snd (the (process_urls demo_env demo_config False (target_urls demo_config) {}
                  (snd (start_run demo_env demo_config demo_world))))))
   \<and> {} = (case open_read ''h.json'' demo_world of
             Inl err \<Rightarrow> {}
           | Inr body \<Rightarrow>
               (case json_loads demo_env body of
                  Inl err \<Rightarrow> {}
                | Inr history_list \<Rightarrow>
                    (case py_set history_list of Inl err \<Rightarrow> {} | Inr ks \<Rightarrow> ks)))
   \<and> main demo_env (Some demo_config) True (write_file ''h.json'' demo_history_text demo_world)
     = Some (Inr (Finalized {KStr ''http://h/a.pdf''}),
             snd (the (process_urls demo_env demo_config True (target_urls demo_config)
                  {KStr ''http://h/a.pdf''}
                  (snd (start_run demo_env demo_config
                     (write_file ''h.json'' demo_history_text demo_world))))))
   \<and> {KStr ''http://h/a.pdf''}
       = (case open_read ''h.json'' (write_file ''h.json'' demo_history_text demo_world) of
             Inl err \<Rightarrow> {}
           | Inr body \<Rightarrow>
               (case json_loads demo_env body of
                  Inl err \<Rightarrow> {}
                | Inr history_list \<Rightarrow>
                    (case py_set history_list of Inl err \<Rightarrow> {} | Inr ks \<Rightarrow> ks)))"
proof -
  let ?k = "{KStr ''http://h/a.pdf''}"
  let ?wb = "write_file ''h.json'' demo_history_text demo_world"
  have cfg: "download_history_file demo_config = ''h.json''"
    "download_history_file demo_config \<noteq> download_base_folder demo_config"
    by (simp_all add: demo_config_def)
  have "fst (start_run demo_env demo_config demo_world) = Inr (Some {})"
    by code_simp
  from pair_collapse [OF this] have a1: "start_run demo_env demo_config demo_world
      = (Inr (Some {}), snd (start_run demo_env demo_config demo_world))" .
  have "map_option fst (process_urls demo_env demo_config False (target_urls demo_config) {}
          (snd (start_run demo_env demo_config demo_world))) = Some (Inr ?k)"
    by code_simp
  from option_pair_collapse [OF this]
  have a2: "process_urls demo_env demo_config False (target_urls demo_config) {}
          (snd (start_run demo_env demo_config demo_world))
      = Some (Inr ?k, snd (the (process_urls demo_env demo_config False (target_urls demo_config) {}
          (snd (start_run demo_env demo_config demo_world)))))" .
  have "fst (start_run demo_env demo_config ?wb) = Inr (Some ?k)"
    by code_simp
  from pair_collapse [OF this] have b1: "start_run demo_env demo_config ?wb
      = (Inr (Some ?k), snd (start_run demo_env demo_config ?wb))" .
  have "map_option fst (process_urls demo_env demo_config True (target_urls demo_config) ?k
          (snd (start_run demo_env demo_config ?wb))) = Some (Inr ?k)"
    by code_simp
  from option_pair_collapse [OF this]
  have b2: "process_urls demo_env demo_config True (target_urls demo_config) ?k
          (snd (start_run demo_env demo_config ?wb))
      = Some (Inr ?k, snd (the (process_urls demo_env demo_config True (target_urls demo_config) ?k
          (snd (start_run demo_env demo_config ?wb)))))" .
  have ne: "?k \<noteq> {}" by simp
  let ?wa1 = "snd (the (process_urls demo_env demo_config False (target_urls demo_config) {}
                  (snd (start_run demo_env demo_config demo_world))))"
  let ?wb1 = "snd (the (process_urls demo_env demo_config True (target_urls demo_config) ?k
                  (snd (start_run demo_env demo_config ?wb))))"
  let ?hf = "download_history_file demo_config"
  note a = history_saved_only_if_grown [OF a1 a2]
  note b = history_saved_only_if_grown [OF b1 b2]
  from a have "main demo_env (Some demo_config) False demo_world
      = Some (Inr (Finalized ?k), finalize demo_env ?hf (card ({} :: pykey set)) ?k ?wa1)"
    by blast
  moreover from a ne have "finalize demo_env ?hf (card ({} :: pykey set)) ?k ?wa1
      = save_download_history demo_env ?hf ?k ?wa1"
    by blast
  ultimately have 1: "main demo_env (Some demo_config) False demo_world
      = Some (Inr (Finalized ?k), save_download_history demo_env ''h.json'' ?k ?wa1)"
    by (simp only: cfg)
  from a cfg(2) have "{} = (case open_read ?hf demo_world of
             Inl err \<Rightarrow> {}
           | Inr body \<Rightarrow>
               (case json_loads demo_env body of
                  Inl err \<Rightarrow> {}
                | Inr history_list \<Rightarrow>
                    (case py_set history_list of Inl err \<Rightarrow> {} | Inr ks \<Rightarrow> ks)))"
    by blast
  then have 2: "{} = (case open_read ''h.json'' demo_world of
             Inl err \<Rightarrow> {}
           | Inr body \<Rightarrow>
               (case json_loads demo_env body of
                  Inl err \<Rightarrow> {}
                | Inr history_list \<Rightarrow>
                    (case py_set history_list of Inl err \<Rightarrow> {} | Inr ks \<Rightarrow> ks)))"
    by (simp only: cfg)
  from b have "main demo_env (Some demo_config) True ?wb
      = Some (Inr (Finalized ?k), finalize demo_env ?hf (card ?k) ?k ?wb1)"
    by blast
  moreover from b have "finalize demo_env ?hf (card ?k) ?k ?wb1 = ?wb1"
    by blast
  ultimately have 3: "main demo_env (Some demo_config) True ?wb
      = Some (Inr (Finalized ?k), ?wb1)"
    by (simp only:)
  from b cfg(2) have "?k = (case open_read ?hf ?wb of
             Inl err \<Rightarrow> {}
           | Inr body \<Rightarrow>
               (case json_loads demo_env body of
                  Inl err \<Rightarrow> {}
                | Inr history_list \<Rightarrow>
                    (case py_set history_list of Inl err \<Rightarrow> {} | Inr ks \<Rightarrow> ks)))"
    by blast
  then have 4: "?k = (case open_read ''h.json'' ?wb of
             Inl err \<Rightarrow> {}
           | Inr body \<Rightarrow>
               (case json_loads demo_env body of
                  Inl err \<Rightarrow> {}
                | Inr history_list \<Rightarrow>
                    (case py_set history_list of Inl err \<Rightarrow> {} | Inr ks \<Rightarrow> ks)))"
    by (simp only: cfg)
  from 1 2 3 4 show ?thesis by (intro conjI)
qed

section \<open>The collision loop\<close>

text \<open>The decimal rendering of the counter tells counters apart, and so do the names
  the loop tries.\<close>

lemma str_nat_nonempty: "str_nat n \<noteq> []"
  by (subst str_nat.simps) simp

lemma digit_inj:
  assumes "i < 10" and "j < 10" and "''0123456789'' ! i = ''0123456789'' ! j"
  shows "i = j"
proof -
  have "distinct ''0123456789''" by simp
  moreover have "i < length ''0123456789''" "j < length ''0123456789''"
    using assms(1,2) by simp_all
  ultimately show ?thesis using assms(3) by (simp only: nth_eq_iff_index_eq)
qed

lemma str_nat_inj: "str_nat m = str_nat n \<Longrightarrow> m = n"
proof (induction m arbitrary: n rule: str_nat.induct)
  case (1 m)
  show ?case
  proof (cases "m < 10")
    case small: True
    then have m: "str_nat m = [''0123456789'' ! m]" by (subst str_nat.simps) simp
    show ?thesis
    proof (cases "n < 10")
      case True
      then have "str_nat n = [''0123456789'' ! n]" by (subst str_nat.simps) simp
      with m "1.prems" have "''0123456789'' ! m = ''0123456789'' ! n" by simp
      with small True show ?thesis by (rule digit_inj)
    next
      case False
      then have "str_nat n = str_nat (n div 10) @ [''0123456789'' ! (n mod 10)]"
        by (subst str_nat.simps) simp
      with m "1.prems" have "str_nat (n div 10) = []" by simp
      with str_nat_nonempty show ?thesis by blast
    qed
  next
    case big: False
    then have m: "str_nat m = str_nat (m div 10) @ [''0123456789'' ! (m mod 10)]"
      by (subst str_nat.simps) simp
    show ?thesis
    proof (cases "n < 10")
      case True
      then have "str_nat n = [''0123456789'' ! n]" by (subst str_nat.simps) simp
      with m "1.prems" have "str_nat (m div 10) = []" by simp
      with str_nat_nonempty show ?thesis by blast
    next
      case False
      then have "str_nat n = str_nat (n div 10) @ [''0123456789'' ! (n mod 10)]"
        by (subst str_nat.simps) simp
      with m "1.prems" have eq: "str_nat (m div 10) = str_nat (n div 10)"
        and d: "''0123456789'' ! (m mod 10) = ''0123456789'' ! (n mod 10)"
        by simp_all
      from "1.IH" [OF big eq] have q: "m div 10 = n div 10" .
      have "m mod 10 < 10" "n mod 10 < 10" by simp_all
      from digit_inj [OF this d] have r: "m mod 10 = n mod 10" .
      from q r show ?thesis by (metis div_mult_mod_eq)
    qed
  qed
qed

lemma path_join_cases:
  "path_join a b = b \<or> path_join a b = a @ b \<or> path_join a b = a @ ''/'' @ b"
  by (simp add: path_join_def)

lemma numbered_path_inj:
  assumes "numbered_path d s e j = numbered_path d s e k"
  shows "j = k"
proof -
  let ?n = "\<lambda>i. s @ ''('' @ str_nat i @ '')'' @ e"
  have hd_eq: "(?n j \<noteq> [] \<and> hd (?n j) = CHR ''/'') = (?n k \<noteq> [] \<and> hd (?n k) = CHR ''/'')"
    by (cases s) simp_all
  from assms have "path_join d (?n j) = path_join d (?n k)"
    by (simp add: numbered_path_def)
  with hd_eq have "?n j = ?n k"
    unfolding path_join_def by (auto split: if_splits)
  then have "str_nat j = str_nat k" by simp
  then show ?thesis by (rule str_nat_inj)
qed

lemma collision_loop_first_free:
  assumes "c \<le> k"
    and "\<forall>j. c \<le> j \<and> j < k \<longrightarrow> path_exists w (numbered_path d s e j)"
    and "\<not> path_exists w (numbered_path d s e k)"
    and "path_exists w p"
  shows "collision_loop w d s e p c = Some (numbered_path d s e k)"
  using assms
proof (induction "k - c" arbitrary: c p)
  case 0
  then have "c = k" by simp
  with "0.prems" show ?case
    by (subst collision_loop.simps) (simp add: collision_loop.simps [of w d s e "numbered_path d s e k"])
next
  case (Suc m)
  then have lt: "c < k" by simp
  with Suc.prems(2) have ex: "path_exists w (numbered_path d s e c)" by simp
  have "collision_loop w d s e (numbered_path d s e c) (c + 1) = Some (numbered_path d s e k)"
  proof (rule Suc.hyps(1))
    show "m = k - (c + 1)" using Suc.hyps(2) by simp
    show "c + 1 \<le> k" using lt by simp
    show "\<forall>j. c + 1 \<le> j \<and> j < k \<longrightarrow> path_exists w (numbered_path d s e j)"
      using Suc.prems(2) by simp
    show "\<not> path_exists w (numbered_path d s e k)" by (rule Suc.prems(3))
    show "path_exists w (numbered_path d s e c)" by (rule ex)
  qed
  with Suc.prems(4) show ?case by (subst collision_loop.simps) simp
qed

lemma free_number_exists:
  assumes "finite (dom (fs w))"
  shows "\<exists>k\<ge>c. \<not> path_exists w (numbered_path d s e k)"
proof (rule ccontr)
  assume "\<not> (\<exists>k\<ge>c. \<not> path_exists w (numbered_path d s e k))"
  then have "numbered_path d s e ` {c..} \<subseteq> dom (fs w)"
    by (auto simp: path_exists_def)
  with assms have "finite (numbered_path d s e ` {c..})" by (rule rev_finite_subset)
  moreover have "inj_on (numbered_path d s e) {c..}"
    by (rule inj_onI) (rule numbered_path_inj)
  ultimately have "finite {c..}" by (rule finite_imageD)
  then show False by (simp add: infinite_Ici)
qed

lemma collision_loop_terminates:
  assumes "finite (dom (fs w))"
  shows "\<exists>q. collision_loop w d s e p c = Some q \<and> \<not> path_exists w q"
proof (cases "path_exists w p")
  case False
  then show ?thesis by (subst collision_loop.simps) simp
next
  case True
  let ?P = "\<lambda>k. c \<le> k \<and> \<not> path_exists w (numbered_path d s e k)"
  from free_number_exists [OF assms] have "\<exists>k. ?P k" by blast
  then have least: "?P (LEAST k. ?P k)" by (rule LeastI_ex)
  have below: "path_exists w (numbered_path d s e j)" if "c \<le> j" "j < (LEAST k. ?P k)" for j
    using that not_less_Least [of j ?P] by blast
  from least below True have "collision_loop w d s e p c
      = Some (numbered_path d s e (LEAST k. ?P k))"
    by (intro collision_loop_first_free) auto
  with least show ?thesis by simp
qed

section \<open>Organizing: the name a colliding file gets\<close>

lemma basename_suffix: "take (length p - length (basename p)) p @ basename p = p"
proof -
  let ?P = "\<lambda>c. c \<noteq> CHR ''/''"
  have "rev p = takeWhile ?P (rev p) @ dropWhile ?P (rev p)" by simp
  then have "p = rev (dropWhile ?P (rev p)) @ rev (takeWhile ?P (rev p))"
    by (metis rev_append rev_rev_ident)
  then have p: "p = rev (dropWhile ?P (rev p)) @ basename p" by (simp add: basename_def)
  then have "length p - length (basename p) = length (rev (dropWhile ?P (rev p)))"
    by (metis add_diff_cancel_right' length_append)
  then have "take (length p - length (basename p)) p = rev (dropWhile ?P (rev p))"
    using p by (metis append_eq_conv_conj)
  with p show ?thesis by simp
qed

lemma take_drop_length_take: "take n xs @ drop (length (take n xs)) xs = xs"
  by (cases "n \<le> length xs") (simp_all add: min_def)

lemma splitext_parts: "fst (splitext p) @ snd (splitext p) = p"
proof -
  let ?name = "basename p"
  let ?head = "take (length p - length ?name) p"
  let ?root = "take (length ?name - length (takeWhile (\<lambda>c. c \<noteq> CHR ''.'') (rev ?name)) - 1) ?name"
  have "?root @ drop (length ?root) ?name = ?name"
    by (rule take_drop_length_take)
  then have "(?head @ ?root) @ drop (length ?root) ?name = ?head @ ?name"
    by (simp only: append_assoc)
  also have "\<dots> = p" by (rule basename_suffix)
  finally have 1: "(?head @ ?root) @ drop (length ?root) ?name = p" .
  show ?thesis
  proof (cases "CHR ''.'' \<in> set ?name \<and> (\<exists>c \<in> set ?root. c \<noteq> CHR ''.'')")
    case True
    have "splitext p = (?head @ ?root, drop (length ?root) ?name)"
      unfolding splitext_def Let_def by (rule if_P) (rule True)
    with 1 show ?thesis by (simp only: fst_conv snd_conv)
  next
    case False
    have "splitext p = (p, [])"
      unfolding splitext_def Let_def by (rule if_not_P) (rule False)
    then show ?thesis by simp
  qed
qed

text \<open>
  C4. When the name of the staged file is taken in the destination folder, the file is
  moved to the name with \<open>(k)\<close> put between what \<open>os.path.splitext\<close> gives as root and as
  extension, for the first \<open>k\<close> from 1 on whose name is free: the names for 1 up to \<open>k - 1\<close>
  are taken, the one for \<open>k\<close> is not. Root and extension make up the file name, so the
  number stands right before the extension.
\<close>

theorem organize_file_collision_numbering:
  assumes "file_path \<noteq> []" and "path_exists w file_path"
    and "splitext (basename file_path) = (stem, ext)"
    and "rule_subfolders rule_type (filter (\<lambda>c. c \<noteq> CHR ''.'') (str_lower ext)) (today w)
           = Some (subfolder_1, subfolder_2)"
    and "dir = (if subfolder_2 \<noteq> [] then path_join (path_join base subfolder_1) subfolder_2
                else path_join base subfolder_1)"
    and "makedirs dir w = Inr w1"
    and "path_exists w1 (path_join dir (basename file_path))"
    and "1 \<le> k"
    and "\<forall>j. 1 \<le> j \<and> j < k \<longrightarrow>
           path_exists w1 (path_join dir (stem @ ''('' @ str_nat j @ '')'' @ ext))"
    and "\<not> path_exists w1 (path_join dir (stem @ ''('' @ str_nat k @ '')'' @ ext))"
    and "shutil_move file_path (path_join dir (stem @ ''('' @ str_nat k @ '')'' @ ext)) w1 = Inr w2"
  shows "organize_file file_path base rule_type w
           = Some (Inr (Some (path_join dir (stem @ ''('' @ str_nat k @ '')'' @ ext))), w2)
         \<and> stem @ ext = basename file_path"
proof
  from assms(8-10) assms(7)
  have "collision_loop w1 dir stem ext (path_join dir (basename file_path)) 1
          = Some (numbered_path dir stem ext k)"
    by (intro collision_loop_first_free) (simp_all add: numbered_path_def)
  then have loop: "collision_loop w1 dir stem ext (path_join dir (basename file_path)) 1
          = Some (path_join dir (stem @ ''('' @ str_nat k @ '')'' @ ext))"
    by (simp add: numbered_path_def)
  from assms(1,2) have here: "(file_path = [] \<or> \<not> path_exists w file_path) = False" by simp
  show "organize_file file_path base rule_type w
           = Some (Inr (Some (path_join dir (stem @ ''('' @ str_nat k @ '')'' @ ext))), w2)"
    unfolding organize_file_def here Let_def assms(3) fst_conv snd_conv assms(4)
    using assms(5,6,11) loop by (cases "subfolder_2 = []") simp_all
next
  from splitext_parts [of "basename file_path"] assms(3)
  show "stem @ ext = basename file_path" by simp
qed

lemma sum_collapse: "\<not> isl x \<Longrightarrow> x = Inr (projr x)"
  by (cases x) simp_all

lemma makedirs_existing: "d \<noteq> [] \<Longrightarrow> fs w d = Some Dir \<Longrightarrow> makedirs d w = Inr w"
  by (simp add: makedirs_def)

text \<open>
  Two files named \<open>a.txt\<close>, organized one after the other with the rule \<open>type\<close>: the first
  becomes \<open>dl/Txt/a.txt\<close>, the second \<open>dl/Txt/a(1).txt\<close>.
\<close>

theorem organize_file_collision_numbering_witness:
  "map_option fst (organize_file ''dl/a.txt'' ''dl'' ''type'' demo_staged)
     = Some (Inr (Some ''dl/Txt/a.txt''))
   \<and> map_option fst (organize_file ''dl/a.txt'' ''dl'' ''type''
        (write_file ''dl/a.txt'' ''two''
           (snd (the (organize_file ''dl/a.txt'' ''dl'' ''type'' demo_staged)))))
     = Some (Inr (Some ''dl/Txt/a(1).txt''))"
proof
  show "map_option fst (organize_file ''dl/a.txt'' ''dl'' ''type'' demo_staged)
     = Some (Inr (Some ''dl/Txt/a.txt''))"
    by code_simp
next
  let ?w = "write_file ''dl/a.txt'' ''two''
              (snd (the (organize_file ''dl/a.txt'' ''dl'' ''type'' demo_staged)))"
  let ?new = "path_join ''dl/Txt'' (''a'' @ ''('' @ str_nat 1 @ '')'' @ ''.txt'')"
  have 1: "''dl/a.txt'' \<noteq> []" by simp
  have 2: "path_exists ?w ''dl/a.txt''" by code_simp
  have 3: "splitext (basename ''dl/a.txt'') = (''a'', ''.txt'')" by code_simp
  have 4: "rule_subfolders ''type'' (filter (\<lambda>c. c \<noteq> CHR ''.'') (str_lower ''.txt'')) (today ?w)
             = Some (''Txt'', [])"
    by code_simp
  have 5: "''dl/Txt'' = (if [] \<noteq> ([] :: string) then path_join (path_join ''dl'' ''Txt'') []
                         else path_join ''dl'' ''Txt'')"
    by code_simp
  have "fs ?w ''dl/Txt'' = Some Dir" by code_simp
  then have 6: "makedirs ''dl/Txt'' ?w = Inr ?w" by (intro makedirs_existing) simp_all
  have 7: "path_exists ?w (path_join ''dl/Txt'' (basename ''dl/a.txt''))" by code_simp
  have 8: "(1::nat) \<le> 1" by simp
  have 9: "\<forall>j. 1 \<le> j \<and> j < (1::nat) \<longrightarrow>
             path_exists ?w (path_join ''dl/Txt'' (''a'' @ ''('' @ str_nat j @ '')'' @ ''.txt''))"
    by simp
  have 10: "\<not> path_exists ?w ?new" by code_simp
  have "\<not> isl (shutil_move ''dl/a.txt'' ?new ?w)" by code_simp
  then have 11: "shutil_move ''dl/a.txt'' ?new ?w
                   = Inr (projr (shutil_move ''dl/a.txt'' ?new ?w))"
    by (rule sum_collapse)
  have name: "?new = ''dl/Txt/a(1).txt''" by code_simp
  from organize_file_collision_numbering [OF 1 2 3 4 5 6 7 8 9 10 11] name
  show "map_option fst (organize_file ''dl/a.txt'' ''dl'' ''type'' ?w)
          = Some (Inr (Some ''dl/Txt/a(1).txt''))"
    by simp
qed

section \<open>Termination of a run\<close>

text \<open>Every step of a run returns, and keeps the file system finite.\<close>

lemma makedirs_returns:
  "makedirs d w = Inr w1 \<Longrightarrow> finite (dom (fs w)) \<Longrightarrow> finite (dom (fs w1))"
  by (auto simp: makedirs_def split: if_splits option.splits node.splits)

lemma open_write_returns:
  "open_write p w = Inr w1 \<Longrightarrow> finite (dom (fs w)) \<Longrightarrow> finite (dom (fs w1))"
  by (auto simp: open_write_def split: if_splits)

lemma shutil_move_returns:
  "shutil_move src dst w = Inr w1 \<Longrightarrow> finite (dom (fs w)) \<Longrightarrow> finite (dom (fs w1))"
  by (auto simp: shutil_move_def Let_def split: if_splits option.splits)

lemma fs_say [simp]: "fs (say m w) = fs w"
  by (simp add: say_def)

lemma fs_sleep [simp]: "fs (sleep n w) = fs w"
  by (simp add: sleep_def)

lemma fs_write_file [simp]: "fs (write_file p c w) = (fs w)(p \<mapsto> File c)"
  by (simp add: write_file_def)

lemma download_file_returns:
  assumes "finite (dom (fs w))"
  shows "finite (dom (fs (snd (download_file e url d w))))"
proof (cases "url_path e url")
  case (Inl err)
  with assms show ?thesis by (simp add: download_file_def)
next
  case p: (Inr p)
  show ?thesis
  proof (cases "makedirs d w")
    case (Inl err)
    with p assms show ?thesis by (simp add: download_file_def Let_def)
  next
    case (Inr w1)
    from makedirs_returns [OF Inr assms] have f1: "finite (dom (fs w1))" .
    let ?w2 = "w1\<lparr>requests := requests w1 @ [url]\<rparr>"
    have f2: "finite (dom (fs ?w2))" using f1 by simp
    have f3: "finite (dom (fs w3))" if "open_write (path_join d (basename p)) ?w2 = Inr w3" for w3
      using open_write_returns [OF that f2] .
    from p Inr assms f1 f2 f3 show ?thesis
      by (auto simp: download_file_def Let_def split: response.splits sum.splits)
  qed
qed

lemma organize_file_returns:
  assumes "finite (dom (fs w))"
  shows "\<exists>r w'. organize_file file_path base rule w = Some (r, w') \<and> finite (dom (fs w'))"
proof (cases "file_path = [] \<or> \<not> path_exists w file_path")
  case True
  with assms show ?thesis by (auto simp: organize_file_def)
next
  case here: False
  let ?name = "basename file_path"
  let ?ext = "filter (\<lambda>c. c \<noteq> CHR ''.'') (str_lower (snd (splitext ?name)))"
  show ?thesis
  proof (cases "rule_subfolders rule ?ext (today w)")
    case None
    with here assms show ?thesis by (auto simp: organize_file_def Let_def)
  next
    case (Some subs)
    obtain s1 s2 where subs: "subs = (s1, s2)" by (cases subs)
    let ?dir = "if s2 \<noteq> [] then path_join (path_join base s1) s2 else path_join base s1"
    show ?thesis
    proof (cases "makedirs ?dir w")
      case (Inl err)
      with here Some subs assms show ?thesis
        by (auto simp: organize_file_def Let_def)
    next
      case (Inr w1)
      from makedirs_returns [OF Inr assms] have f1: "finite (dom (fs w1))" .
      from collision_loop_terminates [OF f1] obtain q
        where q: "collision_loop w1 ?dir (fst (splitext ?name)) (snd (splitext ?name))
                   (path_join ?dir ?name) 1 = Some q"
        by blast
      show ?thesis
      proof (cases "shutil_move file_path q w1")
        case (Inl err)
        with here Some subs Inr q f1 show ?thesis
          by (simp add: organize_file_def Let_def)
      next
        case mv: (Inr w2)
        from shutil_move_returns [OF mv f1] have "finite (dom (fs w2))" .
        with here Some subs Inr q mv show ?thesis
          by (simp add: organize_file_def Let_def)
      qed
    qed
  qed
qed

lemma process_link_returns:
  assumes "finite (dom (fs w))"
  shows "\<exists>r w'. process_link e cfg force link hist w = Some (r, w') \<and> finite (dom (fs w'))"
proof (cases "KStr link \<in> hist \<and> \<not> force")
  case True
  with assms show ?thesis by (simp add: process_link_def)
next
  case False
  then have go: "(KStr link \<in> hist \<and> \<not> force) = False" by simp
  obtain dr w1 where d: "download_file e link (download_base_folder cfg) w = (dr, w1)"
    by (cases "download_file e link (download_base_folder cfg) w")
  from download_file_returns [OF assms, of e link "download_base_folder cfg"] d
  have f1: "finite (dom (fs w1))" by simp
  show ?thesis
  proof (cases dr)
    case (Inl err)
    with d f1 show ?thesis by (simp add: process_link_def go)
  next
    case (Inr po)
    show ?thesis
    proof (cases po)
      case None
      with d f1 Inr show ?thesis by (simp add: process_link_def go)
    next
      case (Some p)
      from organize_file_returns [OF f1, of p "download_base_folder cfg" "organization_rule cfg"]
      obtain r2 w2 where o: "organize_file p (download_base_folder cfg) (organization_rule cfg) w1
            = Some (r2, w2)" and f2: "finite (dom (fs w2))"
        by blast
      from d Inr Some o f2 show ?thesis
        by (cases r2; cases "projr r2") (simp_all add: process_link_def go)
    qed
  qed
qed

lemma process_links_returns:
  "finite (dom (fs w)) \<Longrightarrow>
   \<exists>r w'. process_links e cfg force links hist w = Some (r, w') \<and> finite (dom (fs w'))"
proof (induction links arbitrary: hist w)
  case Nil
  then show ?case by simp
next
  case (Cons link links)
  from process_link_returns [OF Cons.prems, of e cfg force link hist]
  obtain r1 w1 where 1: "process_link e cfg force link hist w = Some (r1, w1)"
    and f1: "finite (dom (fs w1))"
    by blast
  show ?case
  proof (cases r1)
    case (Inl err)
    with 1 f1 show ?thesis by simp
  next
    case (Inr h1)
    with 1 Cons.IH [OF f1, of h1] show ?thesis by simp
  qed
qed

lemma process_url_returns:
  assumes "finite (dom (fs w))"
  shows "\<exists>r w'. process_url e cfg force url hist w = Some (r, w') \<and> finite (dom (fs w'))"
proof -
  obtain html w1 where g: "get_page_content e url w = (html, w1)"
    by (cases "get_page_content e url w")
  then have f1: "finite (dom (fs w1))" using assms
    by (auto simp: get_page_content_def Let_def split: response.splits)
  show ?thesis
  proof (cases "html \<noteq> None \<and> html \<noteq> Some []")
    case False
    with g f1 show ?thesis by (cases html) (auto simp: process_url_def)
  next
    case True
    then obtain body where page: "html = Some body" "body \<noteq> []" by (cases html) auto
    show ?thesis
    proof (cases "find_download_links e (the html) url (allowed_extensions cfg)")
      case (Inl err)
      with g page f1 show ?thesis by (simp add: process_url_def)
    next
      case (Inr links)
      show ?thesis
      proof (cases "links = []")
        case True
        with g page Inr f1 show ?thesis by (simp add: process_url_def)
      next
        case False
        from process_links_returns [OF f1, of e cfg force links hist]
        obtain r2 w2 where 2: "process_links e cfg force links hist w1 = Some (r2, w2)"
          and f2: "finite (dom (fs w2))"
          by blast
        from g page Inr False 2 f2 show ?thesis
          by (cases r2) (simp_all add: process_url_def)
      qed
    qed
  qed
qed

lemma process_urls_returns:
  "finite (dom (fs w)) \<Longrightarrow>
   \<exists>r w'. process_urls e cfg force urls hist w = Some (r, w') \<and> finite (dom (fs w'))"
proof (induction urls arbitrary: hist w)
  case Nil
  then show ?case by simp
next
  case (Cons url urls)
  from process_url_returns [OF Cons.prems, of e cfg force url hist]
  obtain r1 w1 where 1: "process_url e cfg force url hist w = Some (r1, w1)"
    and f1: "finite (dom (fs w1))"
    by blast
  show ?case
  proof (cases r1)
    case (Inl err)
    with 1 f1 show ?thesis by simp
  next
    case (Inr h1)
    with 1 Cons.IH [OF f1, of h1] show ?thesis by simp
  qed
qed

lemma load_download_history_returns:
  "\<exists>hist w'. load_download_history e p w = (Inr hist, w') \<and> fs w' = fs w"
  by (simp add: load_download_history_def split: sum.split pyerror.split)

lemma start_run_returns:
  assumes "finite (dom (fs w))" and "target_urls cfg \<noteq> []" and "allowed_extensions cfg \<noteq> []"
  shows "(\<exists>hist w0. start_run e cfg w = (Inr (Some hist), w0) \<and> finite (dom (fs w0)))
    \<or> (\<exists>err. start_run e cfg w = (Inl err, w)
          \<and> makedirs (download_base_folder cfg) w = Inl err)"
proof (cases "makedirs (download_base_folder cfg) w")
  case (Inl err)
  with assms show ?thesis by (simp add: start_run_def)
next
  case (Inr w1)
  from makedirs_returns [OF Inr assms(1)] have f1: "finite (dom (fs w1))" .
  from load_download_history_returns [of e "download_history_file cfg" w1]
  obtain hist w2 where l: "load_download_history e (download_history_file cfg) w1 = (Inr hist, w2)"
    and "fs w2 = fs w1"
    by blast
  with f1 Inr assms show ?thesis by (simp add: start_run_def)
qed

text \<open>
  No loop of a run is unbounded: on a file system with finitely many entries, a run with
  target pages and allowed extensions configured returns, and it returns either from the
  history persistence logic or with an exception nothing caught.
\<close>

lemma main_returns:
  assumes "finite (dom (fs w))" and "target_urls cfg \<noteq> []" and "allowed_extensions cfg \<noteq> []"
  shows "\<exists>r w'. main e (Some cfg) force w = Some (r, w')
           \<and> ((\<exists>history. r = Inr (Finalized history)) \<or> (\<exists>err. r = Inl err))"
  using start_run_returns [OF assms, of e]
proof
  assume "\<exists>hist w0. start_run e cfg w = (Inr (Some hist), w0) \<and> finite (dom (fs w0))"
  then obtain hist w0 where s: "start_run e cfg w = (Inr (Some hist), w0)"
    and f0: "finite (dom (fs w0))"
    by blast
  from process_urls_returns [OF f0, of e cfg force "target_urls cfg" hist]
  obtain r1 w1 where 1: "process_urls e cfg force (target_urls cfg) hist w0 = Some (r1, w1)"
    by blast
  from s 1 show ?thesis by (cases r1) (simp_all add: main_def)
next
  assume "\<exists>err. start_run e cfg w = (Inl err, w)
            \<and> makedirs (download_base_folder cfg) w = Inl err"
  then show ?thesis by (auto simp: main_def)
qed

text \<open>
  C9. The claim has every run with a valid configuration reach the history persistence
  logic. The loops do end (\<open>main_returns\<close>, \<open>collision_loop_terminates\<close>), but the code does not isolate every
  failure of a link: \<open>urljoin\<close> at line 115 stands outside every \<open>try\<close>, so one link it
  cannot resolve ends the whole run. With the sample page and then the page with the
  unbalanced bracket as targets, on an empty disk, the run files \<open>a.pdf\<close> from the first
  page, ends with the \<open>ValueError\<close> of \<open>urljoin\<close> on the second, and never reaches the
  persistence logic: no history file is written for the file it has filed.
\<close>

theorem main_ended_by_exception:
  "finite (dom (fs demo_world))
   \<and> target_urls (demo_config\<lparr>target_urls := [''http://h/'', ''http://g/'']\<rparr>) \<noteq> []
   \<and> allowed_extensions (demo_config\<lparr>target_urls := [''http://h/'', ''http://g/'']\<rparr>) \<noteq> []
   \<and> map_option fst
        (main demo_env (Some (demo_config\<lparr>target_urls := [''http://h/'', ''http://g/'']\<rparr>))
           False demo_world)
      = Some (Inl ValueError)
   \<and> fs (snd (the (main demo_env
          (Some (demo_config\<lparr>target_urls := [''http://h/'', ''http://g/'']\<rparr>)) False demo_world)))
        ''dl/Pdf/a.pdf'' = Some (File ''%PDF'')
   \<and> fs (snd (the (main demo_env
          (Some (demo_config\<lparr>target_urls := [''http://h/'', ''http://g/'']\<rparr>)) False demo_world)))
        ''h.json'' = None
   \<and> map_option fst (main demo_env (Some demo_config) False demo_world)
      = Some (Inr (Finalized {KStr ''http://h/a.pdf''}))"
proof (intro conjI)
  show "finite (dom (fs demo_world))" by (simp add: demo_world_def)
  show "target_urls (demo_config\<lparr>target_urls := [''http://h/'', ''http://g/'']\<rparr>) \<noteq> []"
    by simp
  show "allowed_extensions (demo_config\<lparr>target_urls := [''http://h/'', ''http://g/'']\<rparr>) \<noteq> []"
    by (simp add: demo_config_def)
  show "map_option fst
        (main demo_env (Some (demo_config\<lparr>target_urls := [''http://h/'', ''http://g/'']\<rparr>))
           False demo_world)
      = Some (Inl ValueError)"
    by code_simp
  show "fs (snd (the (main demo_env
          (Some (demo_config\<lparr>target_urls := [''http://h/'', ''http://g/'']\<rparr>)) False demo_world)))
        ''dl/Pdf/a.pdf'' = Some (File ''%PDF'')"
    by code_simp
  show "fs (snd (the (main demo_env
          (Some (demo_config\<lparr>target_urls := [''http://h/'', ''http://g/'']\<rparr>)) False demo_world)))
        ''h.json'' = None"
    by code_simp
  show "map_option fst (main demo_env (Some demo_config) False demo_world)
      = Some (Inr (Finalized {KStr ''http://h/a.pdf''}))"
    by code_simp
qed

end
